theory Spec2Isabelle
  imports Main "HOL-Library.AList" "HOL-Library.Word"
begin

section \<open>Errors\<close>

text \<open>
  Every rejection of a promise and every \<open>throw\<close> is a value of \<open>error\<close>; an
  \<open>async\<close> function returns \<open>error + 'a\<close>, with \<open>Inl\<close> for the rejection.
  The source itself only ever raises \<open>new Error(message)\<close>; the other two kinds come
  from the collaborators and from the platform.
\<close>

datatype error =
    TimeoutError
      \<comment> \<open>a poll (\<open>pollStatus\<close>, \<open>pollDnsTxtRecord\<close>) exceeded its budget\<close>
  | Rejected string
      \<comment> \<open>any other rejection of a collaborator or of the platform\<close>
  | Error string
      \<comment> \<open>\<open>throw new Error(message)\<close> in the source\<close>

section \<open>Key utilities\<close>

subsection \<open>The platform's \<open>crypto.subtle\<close>, as the code sees it\<close>

type_synonym bytes = "8 word list"

text \<open>The algorithm objects the source builds (its object literals, field by field).\<close>

datatype algorithm_params =
    EcKeyParams string string
      \<comment> \<open>\<open>{ name, namedCurve }\<close>\<close>
  | RsaHashedKeyParams string nat bytes string
      \<comment> \<open>\<open>{ name, modulusLength, publicExponent, hash: { name } }\<close>\<close>
  | HmacParams string string
      \<comment> \<open>\<open>{ name, hash }\<close>\<close>

datatype jwk_value = JwkString string | JwkBool bool | JwkStrings "string list"

text \<open>A JSON Web Key object: its properties in order.\<close>

type_synonym jwk = "(string \<times> jwk_value) list"

text \<open>The first two arguments of \<open>importKey\<close>: the format and the key data in that format.\<close>

datatype key_data = Pkcs8 bytes | Raw bytes | Jwk jwk

record CryptoKey =
  key_type :: string
  extractable :: bool
  algorithm :: algorithm_params
  usages :: "string list"
  material :: bytes

record CryptoKeyPair =
  privateKey :: CryptoKey
  publicKey :: CryptoKey

text \<open>
  \<open>crypto.subtle\<close> is a global of the platform, not code of the repository: it is a
  parameter of every function that calls it. \<open>exportJwk k\<close> is
  \<open>crypto.subtle.exportKey("jwk", k)\<close>.
\<close>

record subtle_crypto =
  generateKey :: "algorithm_params \<Rightarrow> bool \<Rightarrow> string list \<Rightarrow> error + CryptoKeyPair"
  importKey :: "key_data \<Rightarrow> algorithm_params \<Rightarrow> bool \<Rightarrow> string list \<Rightarrow> error + CryptoKey"
  exportJwk :: "CryptoKey \<Rightarrow> error + jwk"

text \<open>
  What the Web Cryptography interface promises about the \<open>extractable\<close> attribute: a
  generated private key and an imported key carry the flag that was requested, a generated
  public key is always extractable, and a key that is not extractable cannot be exported.
\<close>

definition keeps_extractable_flag :: "subtle_crypto \<Rightarrow> bool" where
  "keeps_extractable_flag subtle \<longleftrightarrow>
     (\<forall>params ex us pair. generateKey subtle params ex us = Inr pair \<longrightarrow>
        extractable (privateKey pair) = ex \<and> extractable (publicKey pair))
   \<and> (\<forall>data params ex us key. importKey subtle data params ex us = Inr key \<longrightarrow>
        extractable key = ex)
   \<and> (\<forall>key. \<not> extractable key \<longrightarrow> isl (exportJwk subtle key))"

subsection \<open>\<open>utils/crypto.ts\<close>\<close>

datatype KeyPairAlgorithm = Ec | Rsa | Rsa4096
  \<comment> \<open>\<open>"ec" | "rsa" | "rsa-4096"\<close>\<close>

fun getAlgorithmProperties :: "KeyPairAlgorithm \<Rightarrow> algorithm_params" where
  "getAlgorithmProperties Ec = EcKeyParams ''ECDSA'' ''P-256''"
| "getAlgorithmProperties Rsa =
     RsaHashedKeyParams ''RSASSA-PKCS1-v1_5'' 2048 [0x01, 0x00, 0x01] ''SHA-256''"
| "getAlgorithmProperties Rsa4096 =
     RsaHashedKeyParams ''RSASSA-PKCS1-v1_5'' 4096 [0x01, 0x00, 0x01] ''SHA-256''"

text \<open>The number a \<open>publicExponent\<close> byte array stands for: big-endian, unsigned.\<close>

definition big_endian :: "bytes \<Rightarrow> nat" where
  "big_endian bs = foldl (\<lambda>acc b. acc * 256 + unat b) 0 bs"

text \<open>A default parameter: \<open>keyPairAlgorithm: KeyPairAlgorithm = "ec"\<close>.\<close>

definition or_ec :: "KeyPairAlgorithm option \<Rightarrow> KeyPairAlgorithm" where
  "or_ec keyPairAlgorithm = (case keyPairAlgorithm of None \<Rightarrow> Ec | Some a \<Rightarrow> a)"

text \<open>
  \<open>generateKeyPair\<close> of the \<open>utils/crypto.ts\<close> that exports \<open>getAlgorithmProperties\<close>
  (the module \<open>importKeyPairFromPemPrivateKey.ts\<close> imports from).
\<close>

definition generateKeyPair ::
  "subtle_crypto \<Rightarrow> KeyPairAlgorithm option \<Rightarrow> error + CryptoKeyPair" where
  "generateKeyPair subtle keyPairAlgorithm =
     generateKey subtle (getAlgorithmProperties (or_ec keyPairAlgorithm)) True
       [''sign'', ''verify'']"

text \<open>
  \<open>generateKeyPair\<close> of \<open>src/utils/crypto.ts\<close> as it stands alone: no parameter, the
  algorithm object written out.
\<close>

definition generateKeyPair_p256 :: "subtle_crypto \<Rightarrow> error + CryptoKeyPair" where
  "generateKeyPair_p256 subtle =
     generateKey subtle (EcKeyParams ''ECDSA'' ''P-256'') True [''sign'', ''verify'']"

text \<open>
  \<open>decodeBase64Url\<close> (\<open>utils/encoding.ts\<close>) is a parameter; where it throws, the
  \<open>async\<close> function rejects before \<open>importKey\<close> is called.
\<close>

definition importHmacKey ::
  "subtle_crypto \<Rightarrow> (string \<Rightarrow> error + bytes) \<Rightarrow> string \<Rightarrow> error + CryptoKey" where
  "importHmacKey subtle decodeBase64Url hmacKey =
     (case decodeBase64Url hmacKey of
        Inl e \<Rightarrow> Inl e
      | Inr secret \<Rightarrow>
          importKey subtle (Raw secret) (HmacParams ''HMAC'' ''SHA-256'') False
            [''sign'', ''verify''])"

subsection \<open>\<open>CryptoKeyUtils/importKeyPairFromPemPrivateKey.ts\<close>\<close>

text \<open>
  \<open>{ ...exported, key_ops: ["verify"] }\<close> sets \<open>key_ops\<close> (in place where the property
  exists, at the end otherwise); the rest pattern \<open>{ d: _, ...jwkPublic }\<close> then leaves
  \<open>d\<close> out.
\<close>

definition publicJwk :: "jwk \<Rightarrow> jwk" where
  "publicJwk exported =
     AList.delete ''d'' (AList.update ''key_ops'' (JwkStrings [''verify'']) exported)"

definition derivePublicKey ::
  "subtle_crypto \<Rightarrow> CryptoKey \<Rightarrow> KeyPairAlgorithm option \<Rightarrow> error + CryptoKey" where
  "derivePublicKey subtle privateKey' keyPairAlgorithm =
     (case exportJwk subtle privateKey' of
        Inl e \<Rightarrow> Inl e
      | Inr exported \<Rightarrow>
          importKey subtle (Jwk (publicJwk exported))
            (getAlgorithmProperties (or_ec keyPairAlgorithm)) True [''verify''])"

text \<open>\<open>extractFirstPemObject\<close> (\<open>utils/pem.ts\<close>) is a parameter.\<close>

definition importKeyPairFromPemPrivateKey ::
  "subtle_crypto \<Rightarrow> (string \<Rightarrow> error + bytes) \<Rightarrow> string \<Rightarrow> KeyPairAlgorithm option \<Rightarrow>
     error + CryptoKeyPair" where
  "importKeyPairFromPemPrivateKey subtle extractFirstPemObject pemPrivateKey keyPairAlgorithm =
     (case extractFirstPemObject pemPrivateKey of
        Inl e \<Rightarrow> Inl e
      | Inr der \<Rightarrow>
          (case importKey subtle (Pkcs8 der)
                  (getAlgorithmProperties (or_ec keyPairAlgorithm)) True [''sign''] of
             Inl e \<Rightarrow> Inl e
           | Inr privateKey' \<Rightarrow>
               (case derivePublicKey subtle privateKey' keyPairAlgorithm of
                  Inl e \<Rightarrow> Inl e
                | Inr publicKey' \<Rightarrow>
                    Inr \<lparr>privateKey = privateKey', publicKey = publicKey'\<rparr>)))"

section \<open>The certificate issuance workflow (\<open>AcmeWorkflows.ts\<close>)\<close>

subsection \<open>The collaborators' data\<close>

text \<open>
  Modelled from the spec: the classes \<open>AcmeAccount\<close>, \<open>AcmeOrder\<close>,
  \<open>AcmeAuthorization\<close> and the challenge classes, and the module \<open>DnsUtils\<close>, are
  imported by \<open>AcmeWorkflows.ts\<close> and are not among the sources. The workflow touches
  them only through the members below: an order has its list of authorizations, an
  authorization offers a \<open>dns-01\<close> and an \<open>http-01\<close> challenge or lacks them, and
  \<open>JSON.stringify\<close> gives it a text. Accounts, challenges and resolvers are handles.
\<close>

datatype account = Account string
datatype dns01_challenge = Dns01Challenge string
datatype http01_challenge = Http01Challenge string
datatype resolver = Resolver string
datatype order_status = Pending | Ready | Valid | Invalid

record DnsTxtRecord =
  name :: string
  content :: string

datatype HttpResource = HttpResource string string

record authorization =
  json :: string
    \<comment> \<open>\<open>JSON.stringify(authorization)\<close>\<close>
  findDns01Challenge :: "dns01_challenge option"
  findHttp01Challenge :: "http01_challenge option"

record AcmeOrder =
  url :: string
  authorizations :: "authorization list"

subsection \<open>Calls and their results\<close>

text \<open>
  One event for every call the workflow makes on a collaborator, a callback or a timer,
  with the arguments and with the result the call gave. The trace of an invocation is the
  list of its events, oldest first.
\<close>

datatype event =
    CreateOrder account "string list" "error + AcmeOrder"
  | PollStatus AcmeOrder order_status nat "error + unit"
  | FindDns01Challenge authorization "dns01_challenge option"
  | FindHttp01Challenge authorization "http01_challenge option"
  | GetDnsRecordAnswer dns01_challenge "error + DnsTxtRecord"
  | GetHttpResource http01_challenge "error + HttpResource"
  | UpdateDnsRecords "DnsTxtRecord list" "error + unit"
  | UpdateHttpResources "HttpResource list" "error + unit"
  | FindAuthoritativeNameServerIps string "resolver option" "error + string list"
  | PollDnsTxtRecord string string "resolver option" "string list" nat "error + unit"
  | SetTimeout nat
  | SubmitDns01 dns01_challenge "error + unit"
  | SubmitHttp01 http01_challenge "error + unit"
  | Finalize AcmeOrder "error + CryptoKeyPair"
  | GetCertificate AcmeOrder "error + string"

text \<open>
  The collaborators are remote and stateful: what a call returns may depend on everything
  that happened before it. Each one is a function of the trace so far and of its arguments.
\<close>

record collaborators =
  createOrder :: "event list \<Rightarrow> account \<Rightarrow> string list \<Rightarrow> error + AcmeOrder"
  pollStatus :: "event list \<Rightarrow> AcmeOrder \<Rightarrow> order_status \<Rightarrow> nat \<Rightarrow> error + unit"
  getDnsRecordAnswer :: "event list \<Rightarrow> dns01_challenge \<Rightarrow> error + DnsTxtRecord"
  getHttpResource :: "event list \<Rightarrow> http01_challenge \<Rightarrow> error + HttpResource"
  submitDns01 :: "event list \<Rightarrow> dns01_challenge \<Rightarrow> error + unit"
  submitHttp01 :: "event list \<Rightarrow> http01_challenge \<Rightarrow> error + unit"
  findAuthoritativeNameServerIps ::
    "event list \<Rightarrow> string \<Rightarrow> resolver option \<Rightarrow> error + string list"
  pollDnsTxtRecord ::
    "event list \<Rightarrow> string \<Rightarrow> string \<Rightarrow> resolver option \<Rightarrow> string list \<Rightarrow> nat \<Rightarrow> error + unit"
  finalize :: "event list \<Rightarrow> AcmeOrder \<Rightarrow> error + CryptoKeyPair"
  getCertificate :: "event list \<Rightarrow> AcmeOrder \<Rightarrow> error + string"

record RequestCertificatesConfig =
  acmeAccount :: account
  domains :: "string list"
  updateDnsRecords :: "(event list \<Rightarrow> DnsTxtRecord list \<Rightarrow> error + unit) option"
  updateHttpResources :: "(event list \<Rightarrow> HttpResource list \<Rightarrow> error + unit) option"
  delayAfterDnsRecordsConfirmed :: "nat option"
  resolveDns :: "resolver option"
  timeout :: "nat option"

record issued =
  certificate :: string
  certKeyPair :: CryptoKeyPair
  acmeOrder :: AcmeOrder

subsection \<open>Asynchronous code as trace passing\<close>

type_synonym 'a async = "event list \<Rightarrow> (error + 'a) \<times> event list"

definition resolve :: "'a \<Rightarrow> 'a async" where
  "resolve v tr = (Inr v, tr)"

text \<open>A call: ask the collaborator, with the trace so far, and record the event.\<close>

definition call :: "(event list \<Rightarrow> error + 'a) \<Rightarrow> (error + 'a \<Rightarrow> event) \<Rightarrow> 'a async" where
  "call f ev tr = (f tr, tr @ [ev (f tr)])"

text \<open>\<open>const v = await m; k(v)\<close>: a rejection of \<open>m\<close> leaves the function at once.\<close>

definition await :: "'a async \<Rightarrow> ('a \<Rightarrow> 'b async) \<Rightarrow> 'b async" where
  "await m k tr = (case m tr of (Inl e, tr') \<Rightarrow> (Inl e, tr') | (Inr v, tr') \<Rightarrow> k v tr')"

text \<open>
  \<open>xs.map(f)\<close> with a synchronous \<open>f\<close> that may throw: the elements in order, and the
  first throw ends the loop.
\<close>

fun array_map :: "('a \<Rightarrow> 'b async) \<Rightarrow> 'a list \<Rightarrow> 'b list async" where
  "array_map f [] tr = (Inr [], tr)"
| "array_map f (x # xs) tr =
     (case f x tr of
        (Inl e, tr') \<Rightarrow> (Inl e, tr')
      | (Inr v, tr') \<Rightarrow>
          (case array_map f xs tr' of
             (Inl e, tr'') \<Rightarrow> (Inl e, tr'')
           | (Inr vs, tr'') \<Rightarrow> (Inr (v # vs), tr'')))"

text \<open>
  \<open>xs.map(async (x) => ...)\<close> starts a branch for every element, in order, whatever
  becomes of the others; \<open>settle_all\<close> runs them all and keeps each branch's outcome.
  Nothing in the source orders the branches of one fan-out among themselves: the trace
  lists them in the order they are started. A branch that is still running when another
  one is rejected is not cancelled: its calls are in the trace as well.
\<close>

fun settle_all :: "('a \<Rightarrow> 'b async) \<Rightarrow> 'a list \<Rightarrow> event list \<Rightarrow> (error + 'b) list \<times> event list" where
  "settle_all f [] tr = ([], tr)"
| "settle_all f (x # xs) tr =
     (case f x tr of (r, tr') \<Rightarrow>
        (case settle_all f xs tr' of (rs, tr'') \<Rightarrow> (r # rs, tr'')))"

text \<open>
  \<open>Promise.all\<close> on the outcomes: the values in order when every branch resolved, a
  rejection as soon as one branch rejects (with several, the one that rejects first in
  time; here the first in the list).
\<close>

fun all_or_rejection :: "(error + 'b) list \<Rightarrow> error + 'b list" where
  "all_or_rejection [] = Inr []"
| "all_or_rejection (Inl e # rs) = Inl e"
| "all_or_rejection (Inr v # rs) =
     (case all_or_rejection rs of Inl e \<Rightarrow> Inl e | Inr vs \<Rightarrow> Inr (v # vs))"

definition promise_all :: "('a \<Rightarrow> 'b async) \<Rightarrow> 'a list \<Rightarrow> 'b list async" where
  "promise_all f xs tr = (case settle_all f xs tr of (rs, tr') \<Rightarrow> (all_or_rejection rs, tr'))"

subsection \<open>\<open>requestCertificate\<close>\<close>

text \<open>The defaults of the destructuring: \<open>= 5000\<close> and \<open>= 30000\<close>.\<close>

definition delay_ms :: "RequestCertificatesConfig \<Rightarrow> nat" where
  "delay_ms config =
     (case delayAfterDnsRecordsConfirmed config of None \<Rightarrow> 5000 | Some d \<Rightarrow> d)"

definition timeout_ms :: "RequestCertificatesConfig \<Rightarrow> nat" where
  "timeout_ms config = (case timeout config of None \<Rightarrow> 30000 | Some t \<Rightarrow> t)"

text \<open>Lines 81 to 91: the callback of \<open>authorizations.map\<close>.\<close>

definition dns01_of :: "authorization \<Rightarrow> dns01_challenge async" where
  "dns01_of a tr =
     (case findDns01Challenge a of
        None \<Rightarrow>
          (Inl (Error (''Cannot find dns01 challenge for authorization '' @ json a @ ''.'')),
           tr @ [FindDns01Challenge a None])
      | Some challenge \<Rightarrow> (Inr challenge, tr @ [FindDns01Challenge a (Some challenge)]))"

text \<open>Lines 119 to 129.\<close>

definition http01_of :: "authorization \<Rightarrow> http01_challenge async" where
  "http01_of a tr =
     (case findHttp01Challenge a of
        None \<Rightarrow>
          (Inl (Error (''Cannot find http01 challenge for authorization '' @ json a @ ''.'')),
           tr @ [FindHttp01Challenge a None])
      | Some challenge \<Rightarrow> (Inr challenge, tr @ [FindHttp01Challenge a (Some challenge)]))"

text \<open>
  Lines 101 to 111. Every branch first asks for the authoritative name servers of its
  record (all these calls are made when the branches are started), and polls once that
  call has resolved; a branch whose name server lookup is rejected never polls.
\<close>

definition poll_branch ::
  "collaborators \<Rightarrow> RequestCertificatesConfig \<Rightarrow>
     DnsTxtRecord \<times> (error + string list) \<Rightarrow> unit async" where
  "poll_branch env config = (\<lambda>(expectedRecord, nameServerIps).
     (case nameServerIps of
        Inl e \<Rightarrow> (\<lambda>tr. (Inl e, tr))
      | Inr ips \<Rightarrow>
          call (\<lambda>tr. pollDnsTxtRecord env tr (name expectedRecord) (content expectedRecord)
                        (resolveDns config) ips (timeout_ms config))
               (PollDnsTxtRecord (name expectedRecord) (content expectedRecord)
                  (resolveDns config) ips (timeout_ms config))))"

definition confirm_records ::
  "collaborators \<Rightarrow> RequestCertificatesConfig \<Rightarrow> DnsTxtRecord list \<Rightarrow> unit list async" where
  "confirm_records env config expectedRecords tr =
     (case settle_all
             (\<lambda>expectedRecord.
                call (\<lambda>tr. findAuthoritativeNameServerIps env tr (name expectedRecord)
                              (resolveDns config))
                     (FindAuthoritativeNameServerIps (name expectedRecord) (resolveDns config)))
             expectedRecords tr of
        (nameServerIps, tr') \<Rightarrow>
          promise_all (poll_branch env config) (zip expectedRecords nameServerIps) tr')"

text \<open>Lines 81 to 117, with \<open>updateDnsRecords\<close> the callback of the configuration.\<close>

definition dns01_flow ::
  "collaborators \<Rightarrow> RequestCertificatesConfig \<Rightarrow>
     (event list \<Rightarrow> DnsTxtRecord list \<Rightarrow> error + unit) \<Rightarrow> AcmeOrder \<Rightarrow> unit async" where
  "dns01_flow env config updateDnsRecords' order =
     await (array_map dns01_of (authorizations order)) (\<lambda>dns01Challenges.
     await (promise_all
              (\<lambda>c. call (\<lambda>tr. getDnsRecordAnswer env tr c) (GetDnsRecordAnswer c))
              dns01Challenges) (\<lambda>expectedRecords.
     await (call (\<lambda>tr. updateDnsRecords' tr expectedRecords)
              (UpdateDnsRecords expectedRecords)) (\<lambda>_.
     await (confirm_records env config expectedRecords) (\<lambda>_.
     await (\<lambda>tr. (Inr (), tr @ [SetTimeout (delay_ms config)])) (\<lambda>_.
     await (promise_all (\<lambda>c. call (\<lambda>tr. submitDns01 env tr c) (SubmitDns01 c))
              dns01Challenges) (\<lambda>_.
     resolve ()))))))"

text \<open>Lines 119 to 141.\<close>

definition http01_flow ::
  "collaborators \<Rightarrow> RequestCertificatesConfig \<Rightarrow>
     (event list \<Rightarrow> HttpResource list \<Rightarrow> error + unit) \<Rightarrow> AcmeOrder \<Rightarrow> unit async" where
  "http01_flow env config updateHttpResources' order =
     await (array_map http01_of (authorizations order)) (\<lambda>http01Challenges.
     await (promise_all
              (\<lambda>c. call (\<lambda>tr. getHttpResource env tr c) (GetHttpResource c))
              http01Challenges) (\<lambda>expectedRecords.
     await (call (\<lambda>tr. updateHttpResources' tr expectedRecords)
              (UpdateHttpResources expectedRecords)) (\<lambda>_.
     await (promise_all (\<lambda>c. call (\<lambda>tr. submitHttp01 env tr c) (SubmitHttp01 c))
              http01Challenges) (\<lambda>_.
     resolve ()))))"

text \<open>Lines 80 to 142: \<open>if (updateDnsRecords) ... else if (updateHttpResources) ...\<close>.\<close>

definition challenge_flow ::
  "collaborators \<Rightarrow> RequestCertificatesConfig \<Rightarrow> AcmeOrder \<Rightarrow> unit async" where
  "challenge_flow env config order =
     (case updateDnsRecords config of
        Some updateDnsRecords' \<Rightarrow> dns01_flow env config updateDnsRecords' order
      | None \<Rightarrow>
          (case updateHttpResources config of
             Some updateHttpResources' \<Rightarrow> http01_flow env config updateHttpResources' order
           | None \<Rightarrow> resolve ()))"

text \<open>Lines 78 to 145: the body of \<open>if (challengeRequired)\<close>.\<close>

definition challenge_phase ::
  "collaborators \<Rightarrow> RequestCertificatesConfig \<Rightarrow> AcmeOrder \<Rightarrow> unit async" where
  "challenge_phase env config order =
     await (challenge_flow env config order) (\<lambda>_.
     call (\<lambda>tr. pollStatus env tr order Ready (timeout_ms config))
          (PollStatus order Ready (timeout_ms config)))"

text \<open>Lines 147 to 152.\<close>

definition finalization ::
  "collaborators \<Rightarrow> RequestCertificatesConfig \<Rightarrow> AcmeOrder \<Rightarrow> issued async" where
  "finalization env config order =
     await (call (\<lambda>tr. finalize env tr order) (Finalize order)) (\<lambda>keyPair.
     await (call (\<lambda>tr. pollStatus env tr order Valid (timeout_ms config))
              (PollStatus order Valid (timeout_ms config))) (\<lambda>_.
     await (call (\<lambda>tr. getCertificate env tr order) (GetCertificate order)) (\<lambda>cert.
     resolve \<lparr>certificate = cert, certKeyPair = keyPair, acmeOrder = order\<rparr>)))"

text \<open>
  Lines 70 to 76: \<open>challengeRequired\<close> stays \<open>true\<close> exactly when the \<open>try\<close> block is
  left by an exception; \<open>catch(e) {}\<close> drops the exception, whatever it is.
\<close>

definition readiness_probe :: "collaborators \<Rightarrow> AcmeOrder \<Rightarrow> event list \<Rightarrow> bool \<times> event list" where
  "readiness_probe env order tr =
     (case call (\<lambda>tr. pollStatus env tr order Ready 1) (PollStatus order Ready 1) tr of
        (Inr _, tr') \<Rightarrow> (False, tr')
      | (Inl e, tr') \<Rightarrow> (True, tr'))"

text \<open>Lines 78 to 152, after the probe.\<close>

definition after_probe ::
  "collaborators \<Rightarrow> RequestCertificatesConfig \<Rightarrow> AcmeOrder \<Rightarrow> bool \<Rightarrow> issued async" where
  "after_probe env config order challengeRequired =
     await (if challengeRequired then challenge_phase env config order else resolve ()) (\<lambda>_.
     finalization env config order)"

text \<open>The whole function: its result and the trace of the invocation.\<close>

definition requestCertificate ::
  "collaborators \<Rightarrow> RequestCertificatesConfig \<Rightarrow> (error + issued) \<times> event list" where
  "requestCertificate env config =
     await (call (\<lambda>tr. createOrder env tr (acmeAccount config) (domains config))
              (CreateOrder (acmeAccount config) (domains config))) (\<lambda>order tr.
       (case readiness_probe env order tr of
          (challengeRequired, tr') \<Rightarrow> after_probe env config order challengeRequired tr'))
     []"

subsection \<open>Reading a trace\<close>

datatype kind =
    Creation | StatusPoll | Lookup | Fetch | Callback | NameServers | Confirmation
  | Delay | Submission | Finalization | Retrieval

fun kind_of :: "event \<Rightarrow> kind" where
  "kind_of (CreateOrder _ _ _) = Creation"
| "kind_of (PollStatus _ _ _ _) = StatusPoll"
| "kind_of (FindDns01Challenge _ _) = Lookup"
| "kind_of (FindHttp01Challenge _ _) = Lookup"
| "kind_of (GetDnsRecordAnswer _ _) = Fetch"
| "kind_of (GetHttpResource _ _) = Fetch"
| "kind_of (UpdateDnsRecords _ _) = Callback"
| "kind_of (UpdateHttpResources _ _) = Callback"
| "kind_of (FindAuthoritativeNameServerIps _ _ _) = NameServers"
| "kind_of (PollDnsTxtRecord _ _ _ _ _ _) = Confirmation"
| "kind_of (SetTimeout _) = Delay"
| "kind_of (SubmitDns01 _ _) = Submission"
| "kind_of (SubmitHttp01 _ _) = Submission"
| "kind_of (Finalize _ _) = Finalization"
| "kind_of (GetCertificate _ _) = Retrieval"

text \<open>Whether the call of the event was rejected (a lookup and a timer never are).\<close>

fun rejected :: "event \<Rightarrow> bool" where
  "rejected (CreateOrder _ _ r) = isl r"
| "rejected (PollStatus _ _ _ r) = isl r"
| "rejected (FindDns01Challenge _ _) = False"
| "rejected (FindHttp01Challenge _ _) = False"
| "rejected (GetDnsRecordAnswer _ r) = isl r"
| "rejected (GetHttpResource _ r) = isl r"
| "rejected (UpdateDnsRecords _ r) = isl r"
| "rejected (UpdateHttpResources _ r) = isl r"
| "rejected (FindAuthoritativeNameServerIps _ _ r) = isl r"
| "rejected (PollDnsTxtRecord _ _ _ _ _ r) = isl r"
| "rejected (SetTimeout _) = False"
| "rejected (SubmitDns01 _ r) = isl r"
| "rejected (SubmitHttp01 _ r) = isl r"
| "rejected (Finalize _ r) = isl r"
| "rejected (GetCertificate _ r) = isl r"

text \<open>The events that belong to the HTTP-01 flow alone.\<close>

fun http01_event :: "event \<Rightarrow> bool" where
  "http01_event (FindHttp01Challenge _ _) = True"
| "http01_event (GetHttpResource _ _) = True"
| "http01_event (UpdateHttpResources _ _) = True"
| "http01_event (SubmitHttp01 _ _) = True"
| "http01_event _ = False"

text \<open>The invocations of a fulfillment callback in a trace.\<close>

definition callbacks :: "event list \<Rightarrow> event list" where
  "callbacks tr = filter (\<lambda>e. kind_of e = Callback) tr"

text \<open>The events of a fan-out of calls: the call on each element with its result.\<close>

definition calls :: "('a \<Rightarrow> 'r \<Rightarrow> event) \<Rightarrow> 'a list \<Rightarrow> 'r list \<Rightarrow> event list" where
  "calls ev xs rs = map (\<lambda>(x, r). ev x r) (zip xs rs)"

definition lookups_dns01 :: "authorization list \<Rightarrow> event list" where
  "lookups_dns01 as = map (\<lambda>a. FindDns01Challenge a (findDns01Challenge a)) as"

definition lookups_http01 :: "authorization list \<Rightarrow> event list" where
  "lookups_http01 as = map (\<lambda>a. FindHttp01Challenge a (findHttp01Challenge a)) as"

text \<open>A lookup that found no challenge of the type (the source throws on it).\<close>

fun missing :: "event \<Rightarrow> bool" where
  "missing (FindDns01Challenge _ None) = True"
| "missing (FindHttp01Challenge _ None) = True"
| "missing _ = False"

text \<open>
  A list handed to a callback is complete for an order in a trace: it has one element for
  each authorization of the order, in their order, and the element is what the trace shows
  the authorization's challenge to have answered.
\<close>

definition complete_dns01 :: "AcmeOrder \<Rightarrow> event list \<Rightarrow> DnsTxtRecord list \<Rightarrow> bool" where
  "complete_dns01 order tr expected \<longleftrightarrow>
     list_all2
       (\<lambda>a r. case findDns01Challenge a of
                 None \<Rightarrow> False
               | Some c \<Rightarrow> GetDnsRecordAnswer c (Inr r) \<in> set tr)
       (authorizations order) expected"

definition complete_http01 :: "AcmeOrder \<Rightarrow> event list \<Rightarrow> HttpResource list \<Rightarrow> bool" where
  "complete_http01 order tr expected \<longleftrightarrow>
     list_all2
       (\<lambda>a r. case findHttp01Challenge a of
                 None \<Rightarrow> False
               | Some c \<Rightarrow> GetHttpResource c (Inr r) \<in> set tr)
       (authorizations order) expected"

text \<open>No lookup in the trace came back empty and no fetch in it was rejected.\<close>

definition clean :: "event list \<Rightarrow> bool" where
  "clean tr \<longleftrightarrow> (\<forall>ev\<in>set tr. \<not> missing ev \<and> (kind_of ev = Fetch \<longrightarrow> \<not> rejected ev))"

text \<open>
  The rule of the batch: at most one invocation of a callback; every list handed to a
  callback is complete; and no callback at all in a trace that is not clean.
\<close>

definition batch_rule :: "AcmeOrder \<Rightarrow> event list \<Rightarrow> bool" where
  "batch_rule order tr \<longleftrightarrow>
     length (callbacks tr) \<le> 1
   \<and> (\<forall>expected r. UpdateDnsRecords expected r \<in> set tr \<longrightarrow>
         complete_dns01 order tr expected)
   \<and> (\<forall>expected r. UpdateHttpResources expected r \<in> set tr \<longrightarrow>
         complete_http01 order tr expected)
   \<and> (\<not> clean tr \<longrightarrow> callbacks tr = [])"

section \<open>Concrete collaborators\<close>

text \<open>
  A certificate authority, a DNS and a platform to run the definitions on. The order has
  the given authorizations; the probe (the poll for \<open>ready\<close> with timeout 1) and the
  later poll for \<open>ready\<close> answer as given; every other call resolves.
\<close>

definition sample_key :: "string \<Rightarrow> string list \<Rightarrow> CryptoKey" where
  "sample_key t us =
     \<lparr>key_type = t, extractable = True, algorithm = EcKeyParams ''ECDSA'' ''P-256'',
      usages = us, material = [0x2A]\<rparr>"

definition sample_key_pair :: CryptoKeyPair where
  "sample_key_pair =
     \<lparr>privateKey = sample_key ''private'' [''sign''],
      publicKey = sample_key ''public'' [''verify'']\<rparr>"

definition sample_authorization :: "string \<Rightarrow> bool \<Rightarrow> bool \<Rightarrow> authorization" where
  "sample_authorization domain dns http =
     \<lparr>json = ''{identifier:'' @ domain @ ''}'',
      findDns01Challenge = (if dns then Some (Dns01Challenge domain) else None),
      findHttp01Challenge = (if http then Some (Http01Challenge domain) else None)\<rparr>"

definition sample_order :: "authorization list \<Rightarrow> AcmeOrder" where
  "sample_order auths = \<lparr>url = ''https://ca.test/order/1'', authorizations = auths\<rparr>"

definition two_authorizations :: "authorization list" where
  "two_authorizations =
     [sample_authorization ''a.test'' True True, sample_authorization ''b.test'' True True]"

definition sample_record :: "string \<Rightarrow> DnsTxtRecord" where
  "sample_record d = \<lparr>name = ''_acme-challenge.'' @ d, content = ''digest-'' @ d\<rparr>"

definition sample_resource :: "string \<Rightarrow> HttpResource" where
  "sample_resource d =
     HttpResource (''http://'' @ d @ ''/.well-known/acme-challenge/t'') ''t.thumb''"

definition sample_collaborators ::
  "authorization list \<Rightarrow> error + unit \<Rightarrow> error + unit \<Rightarrow> collaborators" where
  "sample_collaborators auths probe later =
     \<lparr>createOrder = (\<lambda>tr acct doms. Inr (sample_order auths)),
      pollStatus = (\<lambda>tr order status budget.
        if status = Ready then (if budget = 1 then probe else later) else Inr ()),
      getDnsRecordAnswer = (\<lambda>tr c. case c of Dns01Challenge d \<Rightarrow> Inr (sample_record d)),
      getHttpResource = (\<lambda>tr c. case c of Http01Challenge d \<Rightarrow> Inr (sample_resource d)),
      submitDns01 = (\<lambda>tr c. Inr ()),
      submitHttp01 = (\<lambda>tr c. Inr ()),
      findAuthoritativeNameServerIps = (\<lambda>tr n r. Inr [''192.0.2.53'']),
      pollDnsTxtRecord = (\<lambda>tr n c r ips budget. Inr ()),
      finalize = (\<lambda>tr order. Inr sample_key_pair),
      getCertificate = (\<lambda>tr order. Inr ''-----BEGIN CERTIFICATE-----'')\<rparr>"

definition sample_config :: "bool \<Rightarrow> bool \<Rightarrow> RequestCertificatesConfig" where
  "sample_config dns http =
     \<lparr>acmeAccount = Account ''https://ca.test/acct/7'',
      domains = [''a.test'', ''b.test''],
      updateDnsRecords = (if dns then Some (\<lambda>tr records. Inr ()) else None),
      updateHttpResources = (if http then Some (\<lambda>tr resources. Inr ()) else None),
      delayAfterDnsRecordsConfirmed = None,
      resolveDns = None,
      timeout = None\<rparr>"

text \<open>
  The trace of the DNS-01 flow on the order with two authorizations, when the probe times out
  and every other call resolves: up to the confirmations, and from the submissions on.
\<close>

definition sample_dns01_before :: "event list" where
  "sample_dns01_before =
     [CreateOrder (Account ''https://ca.test/acct/7'') [''a.test'', ''b.test'']
        (Inr (sample_order two_authorizations)),
      PollStatus (sample_order two_authorizations) Ready 1 (Inl TimeoutError),
      FindDns01Challenge (sample_authorization ''a.test'' True True)
        (Some (Dns01Challenge ''a.test'')),
      FindDns01Challenge (sample_authorization ''b.test'' True True)
        (Some (Dns01Challenge ''b.test'')),
      GetDnsRecordAnswer (Dns01Challenge ''a.test'') (Inr (sample_record ''a.test'')),
      GetDnsRecordAnswer (Dns01Challenge ''b.test'') (Inr (sample_record ''b.test'')),
      UpdateDnsRecords [sample_record ''a.test'', sample_record ''b.test''] (Inr ()),
      FindAuthoritativeNameServerIps ''_acme-challenge.a.test'' None (Inr [''192.0.2.53'']),
      FindAuthoritativeNameServerIps ''_acme-challenge.b.test'' None (Inr [''192.0.2.53'']),
      PollDnsTxtRecord ''_acme-challenge.a.test'' ''digest-a.test'' None [''192.0.2.53'']
        30000 (Inr ()),
      PollDnsTxtRecord ''_acme-challenge.b.test'' ''digest-b.test'' None [''192.0.2.53'']
        30000 (Inr ())]"

definition sample_dns01_after :: "event list" where
  "sample_dns01_after =
     [SubmitDns01 (Dns01Challenge ''b.test'') (Inr ()),
      PollStatus (sample_order two_authorizations) Ready 30000 (Inr ()),
      Finalize (sample_order two_authorizations) (Inr sample_key_pair),
      PollStatus (sample_order two_authorizations) Valid 30000 (Inr ()),
      GetCertificate (sample_order two_authorizations) (Inr ''-----BEGIN CERTIFICATE-----'')]"

text \<open>
  A platform that creates keys with the attributes that were asked for, and refuses to
  export a key that is not extractable.
\<close>

definition sample_subtle :: subtle_crypto where
  "sample_subtle =
     \<lparr>generateKey = (\<lambda>params ex us.
        Inr \<lparr>privateKey = \<lparr>key_type = ''private'', extractable = ex, algorithm = params,
                            usages = filter (\<lambda>u. u = ''sign'') us, material = [0x01]\<rparr>,
             publicKey = \<lparr>key_type = ''public'', extractable = True, algorithm = params,
                           usages = filter (\<lambda>u. u = ''verify'') us, material = [0x02]\<rparr>\<rparr>),
      importKey = (\<lambda>data params ex us.
        case data of
          Pkcs8 der \<Rightarrow>
            Inr \<lparr>key_type = ''private'', extractable = ex, algorithm = params, usages = us,
                 material = der\<rparr>
        | Raw secret \<Rightarrow>
            Inr \<lparr>key_type = ''secret'', extractable = ex, algorithm = params, usages = us,
                 material = secret\<rparr>
        | Jwk j \<Rightarrow>
            (if map_of j ''d'' = None
             then Inr \<lparr>key_type = ''public'', extractable = ex, algorithm = params,
                       usages = us, material = []\<rparr>
             else Inr \<lparr>key_type = ''private'', extractable = ex, algorithm = params,
                       usages = us, material = []\<rparr>)),
      exportJwk = (\<lambda>key.
        if extractable key
        then Inr [(''kty'', JwkString ''EC''), (''crv'', JwkString ''P-256''),
                  (''x'', JwkString ''eHg''), (''y'', JwkString ''eXk''),
                  (''d'', JwkString ''ZGQ''), (''key_ops'', JwkStrings (usages key)),
                  (''ext'', JwkBool True)]
        else Inl (Rejected ''InvalidAccessError''))\<rparr>"

section \<open>The trace of the combinators and of the DNS-01 flow\<close>

lemma settle_all_call:
  "settle_all (\<lambda>x. call (f x) (ev x)) xs tr = (rs, tr') \<Longrightarrow>
     length rs = length xs \<and> tr' = tr @ calls ev xs rs"
proof (induction xs arbitrary: tr rs tr')
  case Nil
  then show ?case by (simp add: calls_def)
next
  case (Cons x xs)
  have head: "call (f x) (ev x) tr = (f x tr, tr @ [ev x (f x tr)])"
    by (simp add: call_def)
  obtain rs0 tr0 where
    rest: "settle_all (\<lambda>x. call (f x) (ev x)) xs (tr @ [ev x (f x tr)]) = (rs0, tr0)"
    by (cases "settle_all (\<lambda>x. call (f x) (ev x)) xs (tr @ [ev x (f x tr)])")
  from Cons.prems head rest have "rs = f x tr # rs0" "tr' = tr0"
    by simp_all
  with Cons.IH [OF rest] show ?case
    by (simp add: calls_def)
qed

lemma all_or_rejection_map_Inr: "all_or_rejection (map Inr vs) = Inr vs"
  by (induction vs) simp_all

lemma all_or_rejection_Inr_D: "all_or_rejection rs = Inr vs \<Longrightarrow> rs = map Inr vs"
proof (induction rs arbitrary: vs rule: all_or_rejection.induct)
  case 1
  then show ?case by simp
next
  case (2 e rs)
  then show ?case by simp
next
  case (3 v rs)
  then show ?case by (cases "all_or_rejection rs") auto
qed

lemma all_or_rejection_Inl: "all_or_rejection rs = Inl e \<Longrightarrow> Inl e \<in> set rs"
proof (induction rs rule: all_or_rejection.induct)
  case 1
  then show ?case by simp
next
  case (2 e' rs)
  then show ?case by simp
next
  case (3 v rs)
  then show ?case by (cases "all_or_rejection rs") auto
qed

lemma promise_all_call:
  "promise_all (\<lambda>x. call (f x) (ev x)) xs tr = (res, tr') \<Longrightarrow>
     \<exists>rs. length rs = length xs \<and> tr' = tr @ calls ev xs rs \<and> res = all_or_rejection rs"
  by (cases "settle_all (\<lambda>x. call (f x) (ev x)) xs tr")
     (auto simp: promise_all_def dest: settle_all_call)

lemma array_map_dns01_Inr:
  "array_map dns01_of as tr = (Inr cs, tr') \<Longrightarrow>
     map findDns01Challenge as = map Some cs \<and> tr' = tr @ lookups_dns01 as"
proof (induction as arbitrary: tr cs tr')
  case Nil
  then show ?case by (simp add: lookups_dns01_def)
next
  case (Cons a as)
  from Cons.prems obtain c where c: "findDns01Challenge a = Some c"
    by (cases "findDns01Challenge a") (auto simp: dns01_of_def)
  then have head: "dns01_of a tr = (Inr c, tr @ [FindDns01Challenge a (Some c)])"
    by (simp add: dns01_of_def)
  from Cons.prems head obtain cs0 where
    rest: "array_map dns01_of as (tr @ [FindDns01Challenge a (Some c)]) = (Inr cs0, tr')"
    and cs: "cs = c # cs0"
    by (auto split: prod.splits sum.splits)
  from Cons.IH [OF rest] c cs show ?case
    by (simp add: lookups_dns01_def)
qed

lemma array_map_dns01_Inl:
  "array_map dns01_of as tr = (Inl e, tr') \<Longrightarrow>
     \<exists>pre a post. as = pre @ a # post \<and> (\<forall>x\<in>set pre. findDns01Challenge x \<noteq> None)
        \<and> findDns01Challenge a = None
        \<and> e = Error (''Cannot find dns01 challenge for authorization '' @ json a @ ''.'')
        \<and> tr' = tr @ lookups_dns01 (pre @ [a])"
proof (induction as arbitrary: tr)
  case Nil
  then show ?case by simp
next
  case (Cons a as)
  show ?case
  proof (cases "findDns01Challenge a")
    case None
    with Cons.prems have "e = Error (''Cannot find dns01 challenge for authorization '' @ json a @ ''.'')"
      "tr' = tr @ lookups_dns01 ([] @ [a])"
      by (auto simp: dns01_of_def lookups_dns01_def)
    with None show ?thesis by (intro exI [of _ "[]"] exI [of _ a] exI [of _ as]) simp
  next
    case (Some c)
    then have head: "dns01_of a tr = (Inr c, tr @ [FindDns01Challenge a (Some c)])"
      by (simp add: dns01_of_def)
    with Cons.prems have "array_map dns01_of as (tr @ [FindDns01Challenge a (Some c)]) = (Inl e, tr')"
      by (auto split: prod.splits sum.splits)
    from Cons.IH [OF this] obtain pre b post where
      "as = pre @ b # post" "\<forall>x\<in>set pre. findDns01Challenge x \<noteq> None"
      "findDns01Challenge b = None"
      "e = Error (''Cannot find dns01 challenge for authorization '' @ json b @ ''.'')"
      "tr' = (tr @ [FindDns01Challenge a (Some c)]) @ lookups_dns01 (pre @ [b])"
      by blast
    with Some show ?thesis
      by (intro exI [of _ "a # pre"] exI [of _ b] exI [of _ post]) (simp add: lookups_dns01_def)
  qed
qed


lemma poll_branches:
  "settle_all (poll_branch env config) ps tr = (rs, tr') \<Longrightarrow>
     \<exists>polls. tr' = tr @ polls \<and> (\<forall>e\<in>set polls. kind_of e = Confirmation)
       \<and> (\<forall>us. rs = map Inr us \<longrightarrow>
            (\<forall>e\<in>set polls. \<not> rejected e)
          \<and> (\<forall>(expected, found)\<in>set ps. \<exists>ips. found = Inr ips
                \<and> PollDnsTxtRecord (name expected) (content expected) (resolveDns config) ips
                     (timeout_ms config) (Inr ()) \<in> set polls))"
proof (induction ps arbitrary: tr rs tr')
  case Nil
  then show ?case by simp
next
  case (Cons p ps)
  obtain expected found where p: "p = (expected, found)" by (cases p)
  obtain r tr1 where head: "poll_branch env config p tr = (r, tr1)"
    by (cases "poll_branch env config p tr")
  obtain rs0 tr2 where rest: "settle_all (poll_branch env config) ps tr1 = (rs0, tr2)"
    by (cases "settle_all (poll_branch env config) ps tr1")
  from Cons.prems head rest have rs: "rs = r # rs0" and tr': "tr' = tr2"
    by simp_all
  from Cons.IH [OF rest] obtain polls where
    polls: "tr2 = tr1 @ polls" "\<forall>e\<in>set polls. kind_of e = Confirmation"
      "\<forall>us. rs0 = map Inr us \<longrightarrow>
            (\<forall>e\<in>set polls. \<not> rejected e)
          \<and> (\<forall>(expected, found)\<in>set ps. \<exists>ips. found = Inr ips
                \<and> PollDnsTxtRecord (name expected) (content expected) (resolveDns config) ips
                     (timeout_ms config) (Inr ()) \<in> set polls)"
    by blast
  show ?case
  proof (cases found)
    case (Inl e)
    with head p have "r = Inl e" "tr1 = tr"
      by (simp_all add: poll_branch_def)
    with polls rs tr' show ?thesis
      by (intro exI [of _ polls]) auto
  next
    case (Inr ips)
    let ?ev = "PollDnsTxtRecord (name expected) (content expected) (resolveDns config) ips
                 (timeout_ms config)"
    from Inr head p have r: "tr1 = tr @ [?ev r]"
      by (auto simp: poll_branch_def call_def)
    have "tr' = tr @ (?ev r # polls)"
      using polls(1) r tr' by simp
    moreover have "\<forall>e\<in>set (?ev r # polls). kind_of e = Confirmation"
      using polls(2) by simp
    moreover have "\<forall>us. rs = map Inr us \<longrightarrow>
            (\<forall>e\<in>set (?ev r # polls). \<not> rejected e)
          \<and> (\<forall>(expected, found)\<in>set (p # ps). \<exists>ips. found = Inr ips
                \<and> PollDnsTxtRecord (name expected) (content expected) (resolveDns config) ips
                     (timeout_ms config) (Inr ()) \<in> set (?ev r # polls))"
    proof (intro allI impI)
      fix us assume "rs = map Inr us"
      with rs obtain u us0 where "r = Inr u" "rs0 = map Inr us0"
        by (cases us) auto
      with polls(3) p Inr show "(\<forall>e\<in>set (?ev r # polls). \<not> rejected e)
          \<and> (\<forall>(expected, found)\<in>set (p # ps). \<exists>ips. found = Inr ips
                \<and> PollDnsTxtRecord (name expected) (content expected) (resolveDns config) ips
                     (timeout_ms config) (Inr ()) \<in> set (?ev r # polls))"
        by fastforce
    qed
    ultimately show ?thesis by blast
  qed
qed

lemma confirm_records_trace:
  assumes "confirm_records env config expected tr = (res, tr')"
  shows "\<exists>mid. tr' = tr @ mid \<and> (\<forall>e\<in>set mid. kind_of e \<in> {NameServers, Confirmation})
       \<and> (\<forall>us. res = Inr us \<longrightarrow>
            (\<forall>e\<in>set mid. \<not> rejected e)
          \<and> (\<forall>r\<in>set expected. \<exists>ips.
                PollDnsTxtRecord (name r) (content r) (resolveDns config) ips
                  (timeout_ms config) (Inr ()) \<in> set mid))"
proof -
  let ?ev = "\<lambda>r. FindAuthoritativeNameServerIps (name r) (resolveDns config)"
  obtain found tr1 where
    ns: "settle_all (\<lambda>r. call (\<lambda>tr. findAuthoritativeNameServerIps env tr (name r)
                                      (resolveDns config)) (?ev r)) expected tr = (found, tr1)"
    by (cases "settle_all (\<lambda>r. call (\<lambda>tr. findAuthoritativeNameServerIps env tr (name r)
                                      (resolveDns config)) (?ev r)) expected tr")
  from settle_all_call [OF ns] have len: "length found = length expected"
    and tr1: "tr1 = tr @ calls ?ev expected found"
    by simp_all
  obtain rs tr2 where ps: "settle_all (poll_branch env config) (zip expected found) tr1 = (rs, tr2)"
    by (cases "settle_all (poll_branch env config) (zip expected found) tr1")
  from assms ns ps have res: "res = all_or_rejection rs" and tr': "tr' = tr2"
    by (simp_all add: confirm_records_def promise_all_def)
  from poll_branches [OF ps] obtain polls where
    polls: "tr2 = tr1 @ polls" "\<forall>e\<in>set polls. kind_of e = Confirmation"
      "\<forall>us. rs = map Inr us \<longrightarrow>
            (\<forall>e\<in>set polls. \<not> rejected e)
          \<and> (\<forall>(r, f)\<in>set (zip expected found). \<exists>ips. f = Inr ips
                \<and> PollDnsTxtRecord (name r) (content r) (resolveDns config) ips
                     (timeout_ms config) (Inr ()) \<in> set polls)"
    by blast
  let ?mid = "calls ?ev expected found @ polls"
  have "tr' = tr @ ?mid"
    using tr' polls(1) tr1 by simp
  moreover have "\<forall>e\<in>set ?mid. kind_of e \<in> {NameServers, Confirmation}"
    using polls(2) by (auto simp: calls_def)
  moreover have "\<forall>us. res = Inr us \<longrightarrow>
            (\<forall>e\<in>set ?mid. \<not> rejected e)
          \<and> (\<forall>r\<in>set expected. \<exists>ips.
                PollDnsTxtRecord (name r) (content r) (resolveDns config) ips
                  (timeout_ms config) (Inr ()) \<in> set ?mid)"
  proof (intro allI impI)
    fix us assume "res = Inr us"
    with res have "rs = map Inr us"
      by (simp add: all_or_rejection_Inr_D)
    with polls(3) have ok: "\<forall>e\<in>set polls. \<not> rejected e"
      and each: "\<forall>(r, f)\<in>set (zip expected found). \<exists>ips. f = Inr ips
                \<and> PollDnsTxtRecord (name r) (content r) (resolveDns config) ips
                     (timeout_ms config) (Inr ()) \<in> set polls"
      by blast+
    have "\<not> rejected e" if "e \<in> set (calls ?ev expected found)" for e
    proof -
      from that obtain r f where "(r, f) \<in> set (zip expected found)" "e = ?ev r f"
        by (auto simp: calls_def)
      with each show ?thesis by fastforce
    qed
    moreover have "\<exists>ips. PollDnsTxtRecord (name r) (content r) (resolveDns config) ips
                  (timeout_ms config) (Inr ()) \<in> set polls" if "r \<in> set expected" for r
    proof -
      from that len obtain f where "(r, f) \<in> set (zip expected found)"
        by (metis in_set_impl_in_set_zip1)
      with each show ?thesis by fastforce
    qed
    ultimately show "(\<forall>e\<in>set ?mid. \<not> rejected e)
          \<and> (\<forall>r\<in>set expected. \<exists>ips.
                PollDnsTxtRecord (name r) (content r) (resolveDns config) ips
                  (timeout_ms config) (Inr ()) \<in> set ?mid)"
      using ok by (simp add: ball_Un) blast
  qed
  ultimately show ?thesis by blast
qed


lemma dns01_flow_cases:
  assumes run: "dns01_flow env config upd order tr = (res, tr')"
  obtains
    (lookup_failed) pre a post where
      "authorizations order = pre @ a # post"
      "\<forall>x\<in>set pre. findDns01Challenge x \<noteq> None"
      "findDns01Challenge a = None"
      "res = Inl (Error (''Cannot find dns01 challenge for authorization '' @ json a @ ''.''))"
      "tr' = tr @ lookups_dns01 (pre @ [a])"
  | (fetch_failed) cs answers e where
      "map findDns01Challenge (authorizations order) = map Some cs"
      "length answers = length cs" "Inl e \<in> set answers" "res = Inl e"
      "tr' = tr @ lookups_dns01 (authorizations order) @ calls GetDnsRecordAnswer cs answers"
  | (callback_failed) cs expected e where
      "map findDns01Challenge (authorizations order) = map Some cs"
      "length expected = length cs" "res = Inl e"
      "tr' = tr @ lookups_dns01 (authorizations order)
                @ calls GetDnsRecordAnswer cs (map Inr expected)
                @ [UpdateDnsRecords expected (Inl e)]"
  | (confirm_failed) cs expected mid e where
      "map findDns01Challenge (authorizations order) = map Some cs"
      "length expected = length cs" "res = Inl e"
      "\<forall>ev\<in>set mid. kind_of ev \<in> {NameServers, Confirmation}"
      "tr' = tr @ lookups_dns01 (authorizations order)
                @ calls GetDnsRecordAnswer cs (map Inr expected)
                @ [UpdateDnsRecords expected (Inr ())] @ mid"
  | (submitted) cs expected mid submits where
      "map findDns01Challenge (authorizations order) = map Some cs"
      "length expected = length cs" "length submits = length cs"
      "res = (case all_or_rejection submits of Inl e \<Rightarrow> Inl e | Inr _ \<Rightarrow> Inr ())"
      "\<forall>ev\<in>set mid. kind_of ev \<in> {NameServers, Confirmation} \<and> \<not> rejected ev"
      "\<forall>r\<in>set expected. \<exists>ips.
          PollDnsTxtRecord (name r) (content r) (resolveDns config) ips
            (timeout_ms config) (Inr ()) \<in> set mid"
      "tr' = tr @ lookups_dns01 (authorizations order)
                @ calls GetDnsRecordAnswer cs (map Inr expected)
                @ [UpdateDnsRecords expected (Inr ())] @ mid
                @ [SetTimeout (delay_ms config)] @ calls SubmitDns01 cs submits"
proof -
  obtain r1 t1 where s1: "array_map dns01_of (authorizations order) tr = (r1, t1)"
    by (cases "array_map dns01_of (authorizations order) tr")
  show thesis
  proof (cases r1)
    case (Inl e)
    with run s1 have "res = Inl e" "tr' = t1"
      by (auto simp add: dns01_flow_def await_def)
    with array_map_dns01_Inl [OF s1 [unfolded Inl]] lookup_failed show thesis
      by blast
  next
    case (Inr cs)
    note cs = array_map_dns01_Inr [OF s1 [unfolded Inr]]
    let ?get = "\<lambda>c. call (\<lambda>tr. getDnsRecordAnswer env tr c) (GetDnsRecordAnswer c)"
    obtain r2 t2 where s2: "promise_all ?get cs t1 = (r2, t2)"
      by (cases "promise_all ?get cs t1")
    from promise_all_call [OF s2] obtain answers where
      answers: "length answers = length cs" "t2 = t1 @ calls GetDnsRecordAnswer cs answers"
        "r2 = all_or_rejection answers"
      by blast
    show thesis
    proof (cases r2)
      case (Inl e)
      with run s1 s2 \<open>r1 = Inr cs\<close> have "res = Inl e" "tr' = t2"
        by (auto simp add: dns01_flow_def await_def)
      moreover from Inl answers(3) have "Inl e \<in> set answers"
        by (simp add: all_or_rejection_Inl)
      ultimately show thesis
        using fetch_failed [of cs answers e] cs answers by simp
    next
      case (Inr expected)
      with answers(3) have ans: "answers = map Inr expected"
        by (simp add: all_or_rejection_Inr_D)
      with answers(1) have len: "length expected = length cs" by simp
      let ?t3 = "t2 @ [UpdateDnsRecords expected (upd t2 expected)]"
      have s3: "call (\<lambda>tr. upd tr expected) (UpdateDnsRecords expected) t2
                  = (upd t2 expected, ?t3)"
        by (simp add: call_def)
      show thesis
      proof (cases "upd t2 expected")
        case (Inl e)
        with run s1 s2 s3 \<open>r1 = Inr cs\<close> \<open>r2 = Inr expected\<close>
        have "res = Inl e" "tr' = ?t3"
          by (auto simp add: dns01_flow_def await_def)
        then show thesis
          using callback_failed [of cs expected e] cs answers(2) ans len Inl by simp
      next
        case (Inr u)
        obtain r4 t4 where s4: "confirm_records env config expected ?t3 = (r4, t4)"
          by (cases "confirm_records env config expected ?t3")
        from confirm_records_trace [OF s4] obtain mid where
          mid: "t4 = ?t3 @ mid" "\<forall>e\<in>set mid. kind_of e \<in> {NameServers, Confirmation}"
            "\<forall>us. r4 = Inr us \<longrightarrow>
               (\<forall>e\<in>set mid. \<not> rejected e)
             \<and> (\<forall>r\<in>set expected. \<exists>ips.
                  PollDnsTxtRecord (name r) (content r) (resolveDns config) ips
                    (timeout_ms config) (Inr ()) \<in> set mid)"
          by blast
        show thesis
        proof (cases r4)
          case (Inl e)
          with run s1 s2 s3 s4 \<open>r1 = Inr cs\<close> \<open>r2 = Inr expected\<close> \<open>upd t2 expected = Inr u\<close>
          have "res = Inl e" "tr' = t4"
            by (auto simp add: dns01_flow_def await_def)
          then show thesis
            using confirm_failed [of cs expected e mid] cs answers(2) ans len Inr mid(1,2)
            by simp
        next
          case (Inr us)
          let ?t5 = "t4 @ [SetTimeout (delay_ms config)]"
          let ?submit = "\<lambda>c. call (\<lambda>tr. submitDns01 env tr c) (SubmitDns01 c)"
          obtain r6 t6 where s6: "promise_all ?submit cs ?t5 = (r6, t6)"
            by (cases "promise_all ?submit cs ?t5")
          from promise_all_call [OF s6] obtain submits where
            submits: "length submits = length cs" "t6 = ?t5 @ calls SubmitDns01 cs submits"
              "r6 = all_or_rejection submits"
            by blast
          from run s1 s2 s3 s4 s6 \<open>r1 = Inr cs\<close> \<open>r2 = Inr expected\<close>
            \<open>upd t2 expected = Inr u\<close> \<open>r4 = Inr us\<close>
          have "res = (case r6 of Inl e \<Rightarrow> Inl e | Inr _ \<Rightarrow> Inr ())" "tr' = t6"
            by (auto simp add: dns01_flow_def await_def resolve_def split: sum.splits)
          moreover from mid(2,3) Inr
          have "\<forall>ev\<in>set mid. kind_of ev \<in> {NameServers, Confirmation} \<and> \<not> rejected ev"
            "\<forall>r\<in>set expected. \<exists>ips.
                  PollDnsTxtRecord (name r) (content r) (resolveDns config) ips
                    (timeout_ms config) (Inr ()) \<in> set mid"
            by blast+
          ultimately show thesis
            using submitted [of cs expected submits mid] cs answers(2) ans len
              \<open>upd t2 expected = Inr u\<close> mid(1) submits
            by simp
        qed
      qed
    qed
  qed
qed

section \<open>The trace of the HTTP-01 flow and of the whole function\<close>

lemma array_map_http01_Inr:
  "array_map http01_of as tr = (Inr cs, tr') \<Longrightarrow>
     map findHttp01Challenge as = map Some cs \<and> tr' = tr @ lookups_http01 as"
proof (induction as arbitrary: tr cs tr')
  case Nil
  then show ?case by (simp add: lookups_http01_def)
next
  case (Cons a as)
  from Cons.prems obtain c where c: "findHttp01Challenge a = Some c"
    by (cases "findHttp01Challenge a") (auto simp: http01_of_def)
  then have head: "http01_of a tr = (Inr c, tr @ [FindHttp01Challenge a (Some c)])"
    by (simp add: http01_of_def)
  from Cons.prems head obtain cs0 where
    rest: "array_map http01_of as (tr @ [FindHttp01Challenge a (Some c)]) = (Inr cs0, tr')"
    and cs: "cs = c # cs0"
    by (auto split: prod.splits sum.splits)
  from Cons.IH [OF rest] c cs show ?case
    by (simp add: lookups_http01_def)
qed

lemma array_map_http01_Inl:
  "array_map http01_of as tr = (Inl e, tr') \<Longrightarrow>
     \<exists>new. tr' = tr @ new \<and> (\<forall>ev\<in>set new. kind_of ev = Lookup) \<and> \<not> clean new"
proof (induction as arbitrary: tr)
  case Nil
  then show ?case by simp
next
  case (Cons a as)
  show ?case
  proof (cases "findHttp01Challenge a")
    case None
    with Cons.prems have "tr' = tr @ [FindHttp01Challenge a None]"
      by (auto simp: http01_of_def)
    then show ?thesis by (simp add: clean_def)
  next
    case (Some c)
    then have head: "http01_of a tr = (Inr c, tr @ [FindHttp01Challenge a (Some c)])"
      by (simp add: http01_of_def)
    with Cons.prems
    have "array_map http01_of as (tr @ [FindHttp01Challenge a (Some c)]) = (Inl e, tr')"
      by (auto split: prod.splits sum.splits)
    from Cons.IH [OF this] obtain new where
      "tr' = (tr @ [FindHttp01Challenge a (Some c)]) @ new" "\<forall>ev\<in>set new. kind_of ev = Lookup"
      "\<not> clean new"
      by blast
    then show ?thesis
      by (intro exI [of _ "FindHttp01Challenge a (Some c) # new"]) (auto simp: clean_def)
  qed
qed

lemma http01_flow_cases:
  assumes run: "http01_flow env config upd order tr = (res, tr')"
  obtains
    (lookup_failed) new where
      "isl res" "tr' = tr @ new" "\<forall>ev\<in>set new. kind_of ev = Lookup" "\<not> clean new"
  | (fetch_failed) cs answers e where
      "map findHttp01Challenge (authorizations order) = map Some cs"
      "length answers = length cs" "Inl e \<in> set answers" "res = Inl e"
      "tr' = tr @ lookups_http01 (authorizations order) @ calls GetHttpResource cs answers"
  | (callback_failed) cs expected e where
      "map findHttp01Challenge (authorizations order) = map Some cs"
      "length expected = length cs" "res = Inl e"
      "tr' = tr @ lookups_http01 (authorizations order)
                @ calls GetHttpResource cs (map Inr expected)
                @ [UpdateHttpResources expected (Inl e)]"
  | (submitted) cs expected submits where
      "map findHttp01Challenge (authorizations order) = map Some cs"
      "length expected = length cs" "length submits = length cs"
      "res = (case all_or_rejection submits of Inl e \<Rightarrow> Inl e | Inr _ \<Rightarrow> Inr ())"
      "tr' = tr @ lookups_http01 (authorizations order)
                @ calls GetHttpResource cs (map Inr expected)
                @ [UpdateHttpResources expected (Inr ())] @ calls SubmitHttp01 cs submits"
proof -
  obtain r1 t1 where s1: "array_map http01_of (authorizations order) tr = (r1, t1)"
    by (cases "array_map http01_of (authorizations order) tr")
  show thesis
  proof (cases r1)
    case (Inl e)
    with run s1 have "res = Inl e" "tr' = t1"
      by (auto simp add: http01_flow_def await_def)
    with array_map_http01_Inl [OF s1 [unfolded Inl]] lookup_failed show thesis
      by auto
  next
    case (Inr cs)
    note cs = array_map_http01_Inr [OF s1 [unfolded Inr]]
    let ?get = "\<lambda>c. call (\<lambda>tr. getHttpResource env tr c) (GetHttpResource c)"
    obtain r2 t2 where s2: "promise_all ?get cs t1 = (r2, t2)"
      by (cases "promise_all ?get cs t1")
    from promise_all_call [OF s2] obtain answers where
      answers: "length answers = length cs" "t2 = t1 @ calls GetHttpResource cs answers"
        "r2 = all_or_rejection answers"
      by blast
    show thesis
    proof (cases r2)
      case (Inl e)
      with run s1 s2 \<open>r1 = Inr cs\<close> have "res = Inl e" "tr' = t2"
        by (auto simp add: http01_flow_def await_def)
      moreover from Inl answers(3) have "Inl e \<in> set answers"
        by (simp add: all_or_rejection_Inl)
      ultimately show thesis
        using fetch_failed [of cs answers e] cs answers by simp
    next
      case (Inr expected)
      with answers(3) have ans: "answers = map Inr expected"
        by (simp add: all_or_rejection_Inr_D)
      with answers(1) have len: "length expected = length cs" by simp
      let ?t3 = "t2 @ [UpdateHttpResources expected (upd t2 expected)]"
      have s3: "call (\<lambda>tr. upd tr expected) (UpdateHttpResources expected) t2
                  = (upd t2 expected, ?t3)"
        by (simp add: call_def)
      show thesis
      proof (cases "upd t2 expected")
        case (Inl e)
        with run s1 s2 s3 \<open>r1 = Inr cs\<close> \<open>r2 = Inr expected\<close>
        have "res = Inl e" "tr' = ?t3"
          by (auto simp add: http01_flow_def await_def)
        then show thesis
          using callback_failed [of cs expected e] cs answers(2) ans len Inl by simp
      next
        case (Inr u)
        let ?submit = "\<lambda>c. call (\<lambda>tr. submitHttp01 env tr c) (SubmitHttp01 c)"
        obtain r6 t6 where s6: "promise_all ?submit cs ?t3 = (r6, t6)"
          by (cases "promise_all ?submit cs ?t3")
        from promise_all_call [OF s6] obtain submits where
          submits: "length submits = length cs" "t6 = ?t3 @ calls SubmitHttp01 cs submits"
            "r6 = all_or_rejection submits"
          by blast
        from run s1 s2 s3 s6 \<open>r1 = Inr cs\<close> \<open>r2 = Inr expected\<close> \<open>upd t2 expected = Inr u\<close>
        have "res = (case r6 of Inl e \<Rightarrow> Inl e | Inr _ \<Rightarrow> Inr ())" "tr' = t6"
          by (auto simp add: http01_flow_def await_def resolve_def split: sum.splits)
        then show thesis
          using submitted [of cs expected submits] cs answers(2) ans len
            \<open>upd t2 expected = Inr u\<close> submits
          by simp
      qed
    qed
  qed
qed

lemma finalization_trace:
  assumes "finalization env config order tr = (res, tr')"
  shows "\<exists>fin. tr' = tr @ fin
           \<and> (\<forall>ev\<in>set fin. (\<exists>r. ev = Finalize order r)
                 \<or> (\<exists>r. ev = PollStatus order Valid (timeout_ms config) r)
                 \<or> (\<exists>r. ev = GetCertificate order r))"
proof -
  let ?t1 = "tr @ [Finalize order (finalize env tr order)]"
  show ?thesis
  proof (cases "finalize env tr order")
    case (Inl e)
    with assms have "tr' = ?t1"
      by (auto simp: finalization_def await_def call_def)
    then show ?thesis by simp
  next
    case kp: (Inr keyPair)
    let ?t2 = "?t1 @ [PollStatus order Valid (timeout_ms config)
                        (pollStatus env ?t1 order Valid (timeout_ms config))]"
    show ?thesis
    proof (cases "pollStatus env ?t1 order Valid (timeout_ms config)")
      case (Inl e)
      with assms kp have "tr' = ?t2"
        by (auto simp: finalization_def await_def call_def)
      then show ?thesis by simp
    next
      case (Inr u)
      with assms kp have "tr' = ?t2 @ [GetCertificate order (getCertificate env ?t2 order)]"
        by (auto simp: finalization_def await_def call_def resolve_def split: sum.splits)
      then show ?thesis by simp
    qed
  qed
qed

lemma requestCertificate_cases:
  fixes env config
  defines "start \<equiv> CreateOrder (acmeAccount config) (domains config)"
  obtains
    (not_created) e where
      "createOrder env [] (acmeAccount config) (domains config) = Inl e"
      "requestCertificate env config = (Inl e, [start (Inl e)])"
  | (ready_at_once) order fin where
      "createOrder env [] (acmeAccount config) (domains config) = Inr order"
      "pollStatus env [start (Inr order)] order Ready 1 = Inr ()"
      "snd (requestCertificate env config)
         = [start (Inr order), PollStatus order Ready 1 (Inr ())] @ fin"
      "\<forall>ev\<in>set fin. (\<exists>r. ev = Finalize order r)
           \<or> (\<exists>r. ev = PollStatus order Valid (timeout_ms config) r)
           \<or> (\<exists>r. ev = GetCertificate order r)"
  | (flow_failed) order e err tr' where
      "createOrder env [] (acmeAccount config) (domains config) = Inr order"
      "pollStatus env [start (Inr order)] order Ready 1 = Inl e"
      "challenge_flow env config order [start (Inr order), PollStatus order Ready 1 (Inl e)]
         = (Inl err, tr')"
      "requestCertificate env config = (Inl err, tr')"
  | (not_ready) order e err tr' where
      "createOrder env [] (acmeAccount config) (domains config) = Inr order"
      "pollStatus env [start (Inr order)] order Ready 1 = Inl e"
      "challenge_flow env config order [start (Inr order), PollStatus order Ready 1 (Inl e)]
         = (Inr (), tr')"
      "requestCertificate env config
         = (Inl err, tr' @ [PollStatus order Ready (timeout_ms config) (Inl err)])"
  | (finalizing) order e tr' fin where
      "createOrder env [] (acmeAccount config) (domains config) = Inr order"
      "pollStatus env [start (Inr order)] order Ready 1 = Inl e"
      "challenge_flow env config order [start (Inr order), PollStatus order Ready 1 (Inl e)]
         = (Inr (), tr')"
      "snd (requestCertificate env config)
         = tr' @ [PollStatus order Ready (timeout_ms config) (Inr ())] @ fin"
      "\<forall>ev\<in>set fin. (\<exists>r. ev = Finalize order r)
           \<or> (\<exists>r. ev = PollStatus order Valid (timeout_ms config) r)
           \<or> (\<exists>r. ev = GetCertificate order r)"
proof (cases "createOrder env [] (acmeAccount config) (domains config)")
  case (Inl e)
  then have "requestCertificate env config = (Inl e, [start (Inl e)])"
    by (simp add: requestCertificate_def await_def call_def start_def)
  with Inl not_created show thesis by blast
next
  case created: (Inr order)
  let ?t1 = "[start (Inr order)]"
  show thesis
  proof (cases "pollStatus env ?t1 order Ready 1")
    case (Inr u)
    let ?t2 = "[start (Inr order), PollStatus order Ready 1 (Inr ())]"
    from created Inr have eq: "requestCertificate env config = finalization env config order ?t2"
      by (simp add: requestCertificate_def await_def call_def start_def readiness_probe_def
            after_probe_def resolve_def)
    obtain res tr' where fin: "finalization env config order ?t2 = (res, tr')"
      by (cases "finalization env config order ?t2")
    from finalization_trace [OF fin] eq fin created Inr ready_at_once show thesis
      by auto
  next
    case (Inl e)
    let ?t2 = "[start (Inr order), PollStatus order Ready 1 (Inl e)]"
    from created Inl have eq: "requestCertificate env config =
        await (challenge_phase env config order) (\<lambda>_. finalization env config order) ?t2"
      by (simp add: requestCertificate_def await_def call_def start_def readiness_probe_def
            after_probe_def)
    obtain r tr' where flow: "challenge_flow env config order ?t2 = (r, tr')"
      by (cases "challenge_flow env config order ?t2")
    show thesis
    proof (cases r)
      case err: (Inl err)
      with eq flow have "requestCertificate env config = (Inl err, tr')"
        by (simp add: challenge_phase_def await_def)
      with created Inl flow err flow_failed show thesis by blast
    next
      case flowed: (Inr u)
      let ?t3 = "tr' @ [PollStatus order Ready (timeout_ms config)
                          (pollStatus env tr' order Ready (timeout_ms config))]"
      show thesis
      proof (cases "pollStatus env tr' order Ready (timeout_ms config)")
        case (Inl err)
        with eq flow flowed have "requestCertificate env config
            = (Inl err, tr' @ [PollStatus order Ready (timeout_ms config) (Inl err)])"
          by (simp add: challenge_phase_def await_def call_def)
        with created \<open>pollStatus env ?t1 order Ready 1 = Inl e\<close> flow flowed not_ready
        show thesis by auto
      next
        case (Inr v)
        let ?t4 = "tr' @ [PollStatus order Ready (timeout_ms config) (Inr ())]"
        from Inr eq flow flowed
        have eq': "requestCertificate env config = finalization env config order ?t4"
          by (simp add: challenge_phase_def await_def call_def)
        obtain res tr'' where fin: "finalization env config order ?t4 = (res, tr'')"
          by (cases "finalization env config order ?t4")
        from finalization_trace [OF fin] eq' fin created
          \<open>pollStatus env ?t1 order Ready 1 = Inl e\<close> flow flowed finalizing
        show thesis by auto
      qed
    qed
  qed
qed

section \<open>What comes before what\<close>

lemma split_past:
  "A @ x # B = pre @ e # post \<Longrightarrow> e \<notin> set A \<Longrightarrow> e \<noteq> x \<Longrightarrow>
     \<exists>m. pre = A @ x # m \<and> B = m @ e # post"
  by (auto simp: append_eq_append_conv2 append_eq_Cons_conv Cons_eq_append_conv)

lemma split_unique:
  "A @ x # B = pre @ x # post \<Longrightarrow> x \<notin> set A \<Longrightarrow> x \<notin> set B \<Longrightarrow> pre = A \<and> post = B"
  by (auto simp: append_eq_append_conv2 append_eq_Cons_conv Cons_eq_append_conv)

lemma split_in_suffix:
  "H @ F = pre @ e # post \<Longrightarrow> e \<notin> set H \<Longrightarrow> \<exists>m. pre = H @ m \<and> F = m @ e # post"
  by (auto simp: append_eq_append_conv2 append_eq_Cons_conv Cons_eq_append_conv)

lemma kind_of_calls:
  "(\<And>x r. kind_of (ev x r) = k) \<Longrightarrow> e \<in> set (calls ev xs rs) \<Longrightarrow> kind_of e = k"
  by (auto simp: calls_def)

lemma kind_of_lookups_dns01: "e \<in> set (lookups_dns01 as) \<Longrightarrow> kind_of e = Lookup"
  by (auto simp: lookups_dns01_def)

lemma kind_of_lookups_http01: "e \<in> set (lookups_http01 as) \<Longrightarrow> kind_of e = Lookup"
  by (auto simp: lookups_http01_def)

lemma dns01_flow_order:
  assumes run: "dns01_flow env config upd order tr = (res, tr')"
  obtains
    (stopped) new where
      "tr' = tr @ new" "isl res"
      "\<forall>ev\<in>set new. kind_of ev \<in> {Lookup, Fetch, Callback, NameServers, Confirmation}"
  | (delayed) before expected after where
      "tr' = tr @ before @ SetTimeout (delay_ms config) # after"
      "\<forall>ev\<in>set before. kind_of ev \<in> {Lookup, Fetch, Callback, NameServers, Confirmation}"
      "\<forall>ev\<in>set before. kind_of ev = Confirmation \<longrightarrow> \<not> rejected ev"
      "UpdateDnsRecords expected (Inr ()) \<in> set before"
      "\<forall>r\<in>set expected. \<exists>ips.
          PollDnsTxtRecord (name r) (content r) (resolveDns config) ips
            (timeout_ms config) (Inr ()) \<in> set before"
      "\<forall>ev\<in>set after. kind_of ev = Submission"
using run proof (cases rule: dns01_flow_cases)
  case (lookup_failed pre a post)
  then show thesis
    by (intro stopped [of "lookups_dns01 (pre @ [a])"]) (auto dest: kind_of_lookups_dns01)
next
  case (fetch_failed cs answers e)
  then show thesis
    by (intro stopped [of "lookups_dns01 (authorizations order)
                             @ calls GetDnsRecordAnswer cs answers"])
       (auto dest: kind_of_lookups_dns01 kind_of_calls [where k = Fetch, rotated])
next
  case (callback_failed cs expected e)
  then show thesis
    by (intro stopped [of "lookups_dns01 (authorizations order)
                             @ calls GetDnsRecordAnswer cs (map Inr expected)
                             @ [UpdateDnsRecords expected (Inl e)]"])
       (auto dest: kind_of_lookups_dns01 kind_of_calls [where k = Fetch, rotated])
next
  case (confirm_failed cs expected mid e)
  then show thesis
    by (intro stopped [of "lookups_dns01 (authorizations order)
                             @ calls GetDnsRecordAnswer cs (map Inr expected)
                             @ [UpdateDnsRecords expected (Inr ())] @ mid"])
       (auto dest: kind_of_lookups_dns01 kind_of_calls [where k = Fetch, rotated])
next
  case (submitted cs expected mid submits)
  let ?before = "lookups_dns01 (authorizations order)
                   @ calls GetDnsRecordAnswer cs (map Inr expected)
                   @ [UpdateDnsRecords expected (Inr ())] @ mid"
  have "tr' = tr @ ?before @ SetTimeout (delay_ms config) # calls SubmitDns01 cs submits"
    using submitted(7) by simp
  moreover have k: "\<forall>ev\<in>set ?before.
      kind_of ev \<in> {Lookup, Fetch, Callback, NameServers, Confirmation}"
    using submitted(5)
    by (auto dest: kind_of_lookups_dns01 kind_of_calls [where k = Fetch, rotated])
  moreover have "\<forall>ev\<in>set ?before. kind_of ev = Confirmation \<longrightarrow> \<not> rejected ev"
    using submitted(5)
    by (auto dest: kind_of_lookups_dns01 kind_of_calls [where k = Fetch, rotated])
  moreover have "UpdateDnsRecords expected (Inr ()) \<in> set ?before"
    by simp
  moreover have "\<forall>r\<in>set expected. \<exists>ips.
          PollDnsTxtRecord (name r) (content r) (resolveDns config) ips
            (timeout_ms config) (Inr ()) \<in> set ?before"
    using submitted(6) by auto
  moreover have "\<forall>ev\<in>set (calls SubmitDns01 cs submits). kind_of ev = Submission"
    by (auto dest: kind_of_calls [where k = Submission, rotated])
  ultimately show thesis
    by (rule delayed)
qed


lemma challenge_flow_trace:
  assumes "challenge_flow env config order tr = (res, tr')"
  shows "\<exists>new. tr' = tr @ new
           \<and> (\<forall>ev\<in>set new. kind_of ev \<in>
                 {Lookup, Fetch, Callback, NameServers, Confirmation, Delay, Submission})"
proof (cases "updateDnsRecords config")
  case (Some upd)
  with assms have "dns01_flow env config upd order tr = (res, tr')"
    by (simp add: challenge_flow_def)
  then show ?thesis
  proof (cases rule: dns01_flow_order)
    case (stopped new)
    then show ?thesis by (intro exI [of _ new]) auto
  next
    case (delayed before expected after)
    then show ?thesis
      by (intro exI [of _ "before @ SetTimeout (delay_ms config) # after"]) auto
  qed
next
  case None
  show ?thesis
  proof (cases "updateHttpResources config")
    case no_http: None
    with None assms have "tr' = tr"
      by (simp add: challenge_flow_def resolve_def)
    then show ?thesis by simp
  next
    case (Some upd)
    with None assms have "http01_flow env config upd order tr = (res, tr')"
      by (simp add: challenge_flow_def)
    then show ?thesis
    proof (cases rule: http01_flow_cases)
      case (lookup_failed new)
      then show ?thesis by (intro exI [of _ new]) auto
    next
      case (fetch_failed cs answers e)
      then show ?thesis
        by (intro exI [of _ "lookups_http01 (authorizations order)
                               @ calls GetHttpResource cs answers"])
           (auto dest: kind_of_lookups_http01 kind_of_calls [where k = Fetch, rotated])
    next
      case (callback_failed cs expected e)
      then show ?thesis
        by (intro exI [of _ "lookups_http01 (authorizations order)
                               @ calls GetHttpResource cs (map Inr expected)
                               @ [UpdateHttpResources expected (Inl e)]"])
           (auto dest: kind_of_lookups_http01 kind_of_calls [where k = Fetch, rotated])
    next
      case (submitted cs expected submits)
      then show ?thesis
        by (intro exI [of _ "lookups_http01 (authorizations order)
                               @ calls GetHttpResource cs (map Inr expected)
                               @ [UpdateHttpResources expected (Inr ())]
                               @ calls SubmitHttp01 cs submits"])
           (auto dest: kind_of_lookups_http01 kind_of_calls [where k = Fetch, rotated]
              kind_of_calls [where k = Submission, rotated])
    qed
  qed
qed

lemma finalize_follows_ready:
  assumes split: "snd (requestCertificate env config) = pre @ Finalize order r # post"
  shows "\<exists>budget. PollStatus order Ready budget (Inr ()) \<in> set pre"
proof (cases rule: requestCertificate_cases [of env config])
  case (not_created e)
  with split have "Finalize order r \<in> set [CreateOrder (acmeAccount config) (domains config) (Inl e)]"
    by (metis in_set_conv_decomp snd_conv)
  then show ?thesis by simp
next
  case (ready_at_once order' fin)
  let ?H = "[CreateOrder (acmeAccount config) (domains config) (Inr order'),
             PollStatus order' Ready 1 (Inr ())]"
  from ready_at_once(3) split have "?H @ fin = pre @ Finalize order r # post"
    by simp
  then obtain m where m: "pre = ?H @ m" "fin = m @ Finalize order r # post"
    using split_in_suffix [of ?H fin pre "Finalize order r" post] by auto
  with ready_at_once(4) have "order = order'" by auto
  with m show ?thesis by auto
next
  case (flow_failed order' e err tr')
  from challenge_flow_trace [OF flow_failed(3)] obtain new where
    "tr' = [CreateOrder (acmeAccount config) (domains config) (Inr order'),
            PollStatus order' Ready 1 (Inl e)] @ new"
    "\<forall>ev\<in>set new. kind_of ev \<in>
       {Lookup, Fetch, Callback, NameServers, Confirmation, Delay, Submission}"
    by blast
  moreover from split flow_failed(4) have "Finalize order r \<in> set tr'"
    by (metis in_set_conv_decomp snd_conv)
  ultimately show ?thesis by auto
next
  case (not_ready order' e err tr')
  from challenge_flow_trace [OF not_ready(3)] obtain new where
    "tr' = [CreateOrder (acmeAccount config) (domains config) (Inr order'),
            PollStatus order' Ready 1 (Inl e)] @ new"
    "\<forall>ev\<in>set new. kind_of ev \<in>
       {Lookup, Fetch, Callback, NameServers, Confirmation, Delay, Submission}"
    by blast
  moreover from split not_ready(4)
  have "Finalize order r \<in> set (tr' @ [PollStatus order' Ready (timeout_ms config) (Inl err)])"
    by (metis in_set_conv_decomp snd_conv)
  ultimately show ?thesis by auto
next
  case (finalizing order' e tr' fin)
  let ?H = "tr' @ [PollStatus order' Ready (timeout_ms config) (Inr ())]"
  from challenge_flow_trace [OF finalizing(3)] obtain new where
    new: "tr' = [CreateOrder (acmeAccount config) (domains config) (Inr order'),
            PollStatus order' Ready 1 (Inl e)] @ new"
    "\<forall>ev\<in>set new. kind_of ev \<in>
       {Lookup, Fetch, Callback, NameServers, Confirmation, Delay, Submission}"
    by blast
  then have "Finalize order r \<notin> set ?H" by auto
  moreover from finalizing(4) split have "?H @ fin = pre @ Finalize order r # post"
    by simp
  ultimately obtain m where m: "pre = ?H @ m" "fin = m @ Finalize order r # post"
    using split_in_suffix [of ?H fin pre "Finalize order r" post] by blast
  with finalizing(5) have "order = order'" by auto
  with m show ?thesis by auto
qed


lemma dns01_request_trace:
  assumes dns: "updateDnsRecords config = Some upd"
  obtains
    (no_delay)
      "\<forall>ev\<in>set (snd (requestCertificate env config)). kind_of ev \<notin> {Delay, Submission}"
  | (delayed) before expected after where
      "snd (requestCertificate env config) = before @ SetTimeout (delay_ms config) # after"
      "\<forall>ev\<in>set before. kind_of ev \<notin> {Delay, Submission}"
      "\<forall>ev\<in>set before. kind_of ev = Confirmation \<longrightarrow> \<not> rejected ev"
      "UpdateDnsRecords expected (Inr ()) \<in> set before"
      "\<forall>r\<in>set expected. \<exists>ips.
          PollDnsTxtRecord (name r) (content r) (resolveDns config) ips
            (timeout_ms config) (Inr ()) \<in> set before"
      "\<forall>ev\<in>set after. kind_of ev \<notin> {Delay, Confirmation}"
proof (cases rule: requestCertificate_cases [of env config])
  case (not_created e)
  then show thesis by (intro no_delay) simp
next
  case (ready_at_once order fin)
  then show thesis by (intro no_delay) auto
next
  case (flow_failed order e err tr')
  let ?t2 = "[CreateOrder (acmeAccount config) (domains config) (Inr order),
              PollStatus order Ready 1 (Inl e)]"
  from flow_failed(3) dns have "dns01_flow env config upd order ?t2 = (Inl err, tr')"
    by (simp add: challenge_flow_def)
  then show thesis
  proof (cases rule: dns01_flow_order)
    case (stopped new)
    with flow_failed(4) show thesis by (intro no_delay) auto
  next
    case (delayed before expected after)
    show thesis
    proof (rule that(2) [of "?t2 @ before" after expected])
      show "snd (requestCertificate env config)
              = (?t2 @ before) @ SetTimeout (delay_ms config) # after"
        using flow_failed(4) delayed(1) by simp
    qed (use delayed in auto)
  qed
next
  case (not_ready order e err tr')
  let ?t2 = "[CreateOrder (acmeAccount config) (domains config) (Inr order),
              PollStatus order Ready 1 (Inl e)]"
  from not_ready(3) dns have "dns01_flow env config upd order ?t2 = (Inr (), tr')"
    by (simp add: challenge_flow_def)
  then show thesis
  proof (cases rule: dns01_flow_order)
    case (stopped new)
    then show thesis by simp
  next
    case (delayed before expected after)
    show thesis
    proof (rule that(2) [of "?t2 @ before"
            "after @ [PollStatus order Ready (timeout_ms config) (Inl err)]" expected])
      show "snd (requestCertificate env config)
              = (?t2 @ before) @ SetTimeout (delay_ms config)
                  # after @ [PollStatus order Ready (timeout_ms config) (Inl err)]"
        using not_ready(4) delayed(1) by simp
    qed (use delayed in auto)
  qed
next
  case (finalizing order e tr' fin)
  let ?t2 = "[CreateOrder (acmeAccount config) (domains config) (Inr order),
              PollStatus order Ready 1 (Inl e)]"
  from finalizing(3) dns have "dns01_flow env config upd order ?t2 = (Inr (), tr')"
    by (simp add: challenge_flow_def)
  then show thesis
  proof (cases rule: dns01_flow_order)
    case (stopped new)
    then show thesis by simp
  next
    case (delayed before expected after)
    show thesis
    proof (rule that(2) [of "?t2 @ before"
            "after @ [PollStatus order Ready (timeout_ms config) (Inr ())] @ fin" expected])
      show "snd (requestCertificate env config)
              = (?t2 @ before) @ SetTimeout (delay_ms config)
                  # after @ [PollStatus order Ready (timeout_ms config) (Inr ())] @ fin"
        using finalizing(4) delayed(1) by simp
      show "\<forall>ev\<in>set (after @ [PollStatus order Ready (timeout_ms config) (Inr ())] @ fin).
              kind_of ev \<notin> {Delay, Confirmation}"
        using delayed(6) finalizing(5) by auto
    qed (use delayed in auto)
  qed
qed

section \<open>The rule of the batch\<close>

lemma calls_nth:
  "i < length xs \<Longrightarrow> length rs = length xs \<Longrightarrow> ev (xs ! i) (rs ! i) \<in> set (calls ev xs rs)"
  unfolding calls_def set_map set_zip by force

lemma calls_rejection:
  assumes "Inl e \<in> set rs" "length rs = length xs"
  shows "\<exists>x. ev x (Inl e) \<in> set (calls ev xs rs)"
proof -
  from assms obtain i where "i < length rs" "rs ! i = Inl e"
    by (auto simp: in_set_conv_nth)
  with assms(2) calls_nth [of i xs rs ev] show ?thesis
    by auto
qed

lemma callbacks_append: "callbacks (xs @ ys) = callbacks xs @ callbacks ys"
  by (simp add: callbacks_def)

lemma callbacks_none: "(\<forall>ev\<in>set tr. kind_of ev \<noteq> Callback) \<Longrightarrow> callbacks tr = []"
  by (simp add: callbacks_def filter_empty_conv)

lemma callbacks_Nil: "callbacks [] = []"
  by (simp add: callbacks_def)

lemma callbacks_Cons:
  "callbacks (ev # tr) = (if kind_of ev = Callback then ev # callbacks tr else callbacks tr)"
  by (simp add: callbacks_def)

lemma in_callbacks: "ev \<in> set tr \<Longrightarrow> kind_of ev = Callback \<Longrightarrow> ev \<in> set (callbacks tr)"
  by (simp add: callbacks_def)

lemma clean_Nil: "clean []"
  by (simp add: clean_def)

lemma clean_Cons:
  "clean (ev # tr) \<longleftrightarrow> \<not> missing ev \<and> (kind_of ev = Fetch \<longrightarrow> \<not> rejected ev) \<and> clean tr"
  by (simp add: clean_def)

lemma clean_append: "clean (xs @ ys) \<longleftrightarrow> clean xs \<and> clean ys"
  by (auto simp: clean_def)

lemma clean_other:
  "(\<forall>ev\<in>set tr. kind_of ev \<noteq> Lookup \<and> kind_of ev \<noteq> Fetch) \<Longrightarrow> clean tr"
  unfolding clean_def
proof (intro ballI)
  fix ev assume a: "\<forall>ev\<in>set tr. kind_of ev \<noteq> Lookup \<and> kind_of ev \<noteq> Fetch" "ev \<in> set tr"
  then have "kind_of ev \<noteq> Lookup" "kind_of ev \<noteq> Fetch" by auto
  then show "\<not> missing ev \<and> (kind_of ev = Fetch \<longrightarrow> \<not> rejected ev)"
    by (cases ev rule: missing.cases) simp_all
qed

lemma clean_fetched: "clean (calls GetDnsRecordAnswer cs (map Inr expected))"
  by (auto simp: clean_def calls_def dest!: set_zip_rightD)

lemma clean_fetched_http: "clean (calls GetHttpResource cs (map Inr expected))"
  by (auto simp: clean_def calls_def dest!: set_zip_rightD)

lemma clean_lookups_dns01:
  assumes "map findDns01Challenge as = map Some cs"
  shows "clean (lookups_dns01 as)"
proof -
  have "\<not> missing (FindDns01Challenge a (findDns01Challenge a))" if "a \<in> set as" for a
  proof -
    from that have "findDns01Challenge a \<in> set (map findDns01Challenge as)" by simp
    with assms obtain c where "findDns01Challenge a = Some c" by auto
    then show ?thesis by simp
  qed
  then show ?thesis
    by (auto simp: clean_def lookups_dns01_def)
qed

lemma clean_lookups_http01:
  assumes "map findHttp01Challenge as = map Some cs"
  shows "clean (lookups_http01 as)"
proof -
  have "\<not> missing (FindHttp01Challenge a (findHttp01Challenge a))" if "a \<in> set as" for a
  proof -
    from that have "findHttp01Challenge a \<in> set (map findHttp01Challenge as)" by simp
    with assms obtain c where "findHttp01Challenge a = Some c" by auto
    then show ?thesis by simp
  qed
  then show ?thesis
    by (auto simp: clean_def lookups_http01_def)
qed

lemma callbacks_lookups_dns01: "callbacks (lookups_dns01 as) = []"
  by (rule callbacks_none) (auto simp: lookups_dns01_def)

lemma callbacks_lookups_http01: "callbacks (lookups_http01 as) = []"
  by (rule callbacks_none) (auto simp: lookups_http01_def)

lemma callbacks_fetches_dns01: "callbacks (calls GetDnsRecordAnswer cs rs) = []"
  by (rule callbacks_none) (auto simp: calls_def)

lemma callbacks_fetches_http01: "callbacks (calls GetHttpResource cs rs) = []"
  by (rule callbacks_none) (auto simp: calls_def)

lemma callbacks_submits_dns01: "callbacks (calls SubmitDns01 cs rs) = []"
  by (rule callbacks_none) (auto simp: calls_def)

lemma callbacks_submits_http01: "callbacks (calls SubmitHttp01 cs rs) = []"
  by (rule callbacks_none) (auto simp: calls_def)

lemma batch_without_callback:
  assumes "\<forall>ev\<in>set tr. kind_of ev \<noteq> Callback"
  shows "batch_rule order tr"
proof -
  have "callbacks tr = []" using assms by (rule callbacks_none)
  moreover have "UpdateDnsRecords expected r \<notin> set tr" for expected r
    using assms by force
  moreover have "UpdateHttpResources expected r \<notin> set tr" for expected r
    using assms by force
  ultimately show ?thesis by (simp add: batch_rule_def)
qed

lemma batch_with_dns01_callback:
  assumes "callbacks tr = [UpdateDnsRecords expected r]"
      and "complete_dns01 order tr expected" and "clean tr"
  shows "batch_rule order tr"
proof -
  have "ex = expected" if "UpdateDnsRecords ex r' \<in> set tr" for ex r'
    using in_callbacks [OF that] assms(1) by simp
  moreover have "UpdateHttpResources ex r' \<notin> set tr" for ex r'
    using in_callbacks [of "UpdateHttpResources ex r'" tr] assms(1) by auto
  ultimately show ?thesis
    using assms by (auto simp: batch_rule_def)
qed

lemma batch_with_http01_callback:
  assumes "callbacks tr = [UpdateHttpResources expected r]"
      and "complete_http01 order tr expected" and "clean tr"
  shows "batch_rule order tr"
proof -
  have "ex = expected" if "UpdateHttpResources ex r' \<in> set tr" for ex r'
    using in_callbacks [OF that] assms(1) by simp
  moreover have "UpdateDnsRecords ex r' \<notin> set tr" for ex r'
    using in_callbacks [of "UpdateDnsRecords ex r'" tr] assms(1) by auto
  ultimately show ?thesis
    using assms by (auto simp: batch_rule_def)
qed

lemma complete_dns01_fetched:
  assumes "map findDns01Challenge (authorizations order) = map Some cs"
      and "length expected = length cs"
      and "set (calls GetDnsRecordAnswer cs (map Inr expected)) \<subseteq> set tr"
  shows "complete_dns01 order tr expected"
  unfolding complete_dns01_def list_all2_conv_all_nth
proof (intro conjI allI impI)
  from assms(1) have len: "length (authorizations order) = length cs"
    by (metis length_map)
  with assms(2) show "length (authorizations order) = length expected" by simp
  fix i assume i: "i < length (authorizations order)"
  with assms(1) len have "findDns01Challenge (authorizations order ! i) = Some (cs ! i)"
    by (metis nth_map)
  moreover from i len assms(2)
  have "GetDnsRecordAnswer (cs ! i) (map Inr expected ! i)
          \<in> set (calls GetDnsRecordAnswer cs (map Inr expected))"
    by (intro calls_nth) simp_all
  ultimately show "case findDns01Challenge (authorizations order ! i) of
       None \<Rightarrow> False
     | Some c \<Rightarrow> GetDnsRecordAnswer c (Inr (expected ! i)) \<in> set tr"
    using assms(3) i len assms(2) by auto
qed

lemma complete_http01_fetched:
  assumes "map findHttp01Challenge (authorizations order) = map Some cs"
      and "length expected = length cs"
      and "set (calls GetHttpResource cs (map Inr expected)) \<subseteq> set tr"
  shows "complete_http01 order tr expected"
  unfolding complete_http01_def list_all2_conv_all_nth
proof (intro conjI allI impI)
  from assms(1) have len: "length (authorizations order) = length cs"
    by (metis length_map)
  with assms(2) show "length (authorizations order) = length expected" by simp
  fix i assume i: "i < length (authorizations order)"
  with assms(1) len have "findHttp01Challenge (authorizations order ! i) = Some (cs ! i)"
    by (metis nth_map)
  moreover from i len assms(2)
  have "GetHttpResource (cs ! i) (map Inr expected ! i)
          \<in> set (calls GetHttpResource cs (map Inr expected))"
    by (intro calls_nth) simp_all
  ultimately show "case findHttp01Challenge (authorizations order ! i) of
       None \<Rightarrow> False
     | Some c \<Rightarrow> GetHttpResource c (Inr (expected ! i)) \<in> set tr"
    using assms(3) i len assms(2) by auto
qed

text \<open>The flow's part of a trace: either not clean and without a callback, or clean with
  exactly one callback; the rule of the batch holds in both.\<close>

lemma dns01_flow_batch:
  assumes run: "dns01_flow env config upd order tr = (res, tr')"
  shows "\<exists>new. tr' = tr @ new \<and> batch_rule order new
           \<and> (clean new \<longrightarrow> length (callbacks new) = 1)"
using run proof (cases rule: dns01_flow_cases)
  case (lookup_failed pre a post)
  let ?new = "lookups_dns01 (pre @ [a])"
  have "FindDns01Challenge a None \<in> set ?new"
    using lookup_failed(3) by (simp add: lookups_dns01_def)
  then have "\<not> clean ?new" by (force simp: clean_def)
  moreover have "\<forall>ev\<in>set ?new. kind_of ev \<noteq> Callback"
    by (auto dest: kind_of_lookups_dns01)
  ultimately show ?thesis
    using lookup_failed(5) batch_without_callback [of ?new order] by blast
next
  case (fetch_failed cs answers e)
  let ?new = "lookups_dns01 (authorizations order) @ calls GetDnsRecordAnswer cs answers"
  from calls_rejection [OF fetch_failed(3,2), of GetDnsRecordAnswer]
  obtain c where "GetDnsRecordAnswer c (Inl e) \<in> set ?new" by auto
  then have "\<not> clean ?new" by (force simp: clean_def)
  moreover have "\<forall>ev\<in>set ?new. kind_of ev \<noteq> Callback"
    by (auto dest: kind_of_lookups_dns01 kind_of_calls [where k = Fetch, rotated])
  ultimately show ?thesis
    using fetch_failed(5) batch_without_callback [of ?new order] by blast
next
  case (callback_failed cs expected e)
  let ?gets = "calls GetDnsRecordAnswer cs (map Inr expected)"
  let ?new = "lookups_dns01 (authorizations order) @ ?gets @ [UpdateDnsRecords expected (Inl e)]"
  have cb: "callbacks ?new = [UpdateDnsRecords expected (Inl e)]"
    by (simp add: callbacks_append callbacks_Nil callbacks_Cons callbacks_lookups_dns01
          callbacks_fetches_dns01)
  have "complete_dns01 order ?new expected"
    using callback_failed(1,2) by (rule complete_dns01_fetched) auto
  moreover have "clean ?new"
    using clean_lookups_dns01 [OF callback_failed(1)] clean_fetched [of cs expected]
    by (simp add: clean_append clean_Cons clean_Nil)
  ultimately show ?thesis
    using callback_failed(4) cb batch_with_dns01_callback [of ?new expected "Inl e" order]
    by (intro exI [of _ ?new]) simp
next
  case (confirm_failed cs expected mid e)
  let ?gets = "calls GetDnsRecordAnswer cs (map Inr expected)"
  let ?new = "lookups_dns01 (authorizations order) @ ?gets
                @ [UpdateDnsRecords expected (Inr ())] @ mid"
  have mid: "\<forall>ev\<in>set mid. kind_of ev \<noteq> Callback"
     "\<forall>ev\<in>set mid. kind_of ev \<noteq> Lookup \<and> kind_of ev \<noteq> Fetch"
    using confirm_failed(4) by auto
  have cb: "callbacks ?new = [UpdateDnsRecords expected (Inr ())]"
    by (simp add: callbacks_append callbacks_Nil callbacks_Cons callbacks_none [OF mid(1)]
          callbacks_lookups_dns01 callbacks_fetches_dns01)
  have "complete_dns01 order ?new expected"
    using confirm_failed(1,2) by (rule complete_dns01_fetched) auto
  moreover have "clean ?new"
    using clean_lookups_dns01 [OF confirm_failed(1)] clean_fetched [of cs expected]
      clean_other [OF mid(2)]
    by (simp add: clean_append clean_Cons clean_Nil)
  ultimately show ?thesis
    using confirm_failed(5) cb batch_with_dns01_callback [of ?new expected "Inr ()" order]
    by (intro exI [of _ ?new]) simp
next
  case (submitted cs expected mid submits)
  let ?gets = "calls GetDnsRecordAnswer cs (map Inr expected)"
  let ?subs = "calls SubmitDns01 cs submits"
  let ?new = "lookups_dns01 (authorizations order) @ ?gets
                @ [UpdateDnsRecords expected (Inr ())] @ mid
                @ [SetTimeout (delay_ms config)] @ ?subs"
  have mid: "\<forall>ev\<in>set mid. kind_of ev \<noteq> Callback"
     "\<forall>ev\<in>set mid. kind_of ev \<noteq> Lookup \<and> kind_of ev \<noteq> Fetch"
    using submitted(5) by auto
  have subs: "\<forall>ev\<in>set ?subs. kind_of ev \<noteq> Callback"
     "\<forall>ev\<in>set ?subs. kind_of ev \<noteq> Lookup \<and> kind_of ev \<noteq> Fetch"
    by (auto dest: kind_of_calls [where k = Submission, rotated])
  have cb: "callbacks ?new = [UpdateDnsRecords expected (Inr ())]"
    by (simp add: callbacks_append callbacks_Nil callbacks_Cons callbacks_none [OF mid(1)]
          callbacks_lookups_dns01 callbacks_fetches_dns01 callbacks_submits_dns01)
  have "complete_dns01 order ?new expected"
    using submitted(1,2) by (rule complete_dns01_fetched) auto
  moreover have "clean ?new"
    using clean_lookups_dns01 [OF submitted(1)] clean_fetched [of cs expected]
      clean_other [OF mid(2)] clean_other [OF subs(2)]
    by (simp add: clean_append clean_Cons clean_Nil)
  ultimately show ?thesis
    using submitted(7) cb batch_with_dns01_callback [of ?new expected "Inr ()" order]
    by (intro exI [of _ ?new]) simp
qed

lemma http01_flow_batch:
  assumes run: "http01_flow env config upd order tr = (res, tr')"
  shows "\<exists>new. tr' = tr @ new \<and> batch_rule order new
           \<and> (clean new \<longrightarrow> length (callbacks new) = 1)"
using run proof (cases rule: http01_flow_cases)
  case (lookup_failed new)
  then have "\<forall>ev\<in>set new. kind_of ev \<noteq> Callback" by auto
  with lookup_failed show ?thesis
    using batch_without_callback [of new order] by blast
next
  case (fetch_failed cs answers e)
  let ?new = "lookups_http01 (authorizations order) @ calls GetHttpResource cs answers"
  from calls_rejection [OF fetch_failed(3,2), of GetHttpResource]
  obtain c where "GetHttpResource c (Inl e) \<in> set ?new" by auto
  then have "\<not> clean ?new" by (force simp: clean_def)
  moreover have "\<forall>ev\<in>set ?new. kind_of ev \<noteq> Callback"
    by (auto dest: kind_of_lookups_http01 kind_of_calls [where k = Fetch, rotated])
  ultimately show ?thesis
    using fetch_failed(5) batch_without_callback [of ?new order] by blast
next
  case (callback_failed cs expected e)
  let ?gets = "calls GetHttpResource cs (map Inr expected)"
  let ?new = "lookups_http01 (authorizations order) @ ?gets
                @ [UpdateHttpResources expected (Inl e)]"
  have cb: "callbacks ?new = [UpdateHttpResources expected (Inl e)]"
    by (simp add: callbacks_append callbacks_Nil callbacks_Cons callbacks_lookups_http01
          callbacks_fetches_http01)
  have "complete_http01 order ?new expected"
    using callback_failed(1,2) by (rule complete_http01_fetched) auto
  moreover have "clean ?new"
    using clean_lookups_http01 [OF callback_failed(1)] clean_fetched_http [of cs expected]
    by (simp add: clean_append clean_Cons clean_Nil)
  ultimately show ?thesis
    using callback_failed(4) cb batch_with_http01_callback [of ?new expected "Inl e" order]
    by (intro exI [of _ ?new]) simp
next
  case (submitted cs expected submits)
  let ?gets = "calls GetHttpResource cs (map Inr expected)"
  let ?subs = "calls SubmitHttp01 cs submits"
  let ?new = "lookups_http01 (authorizations order) @ ?gets
                @ [UpdateHttpResources expected (Inr ())] @ ?subs"
  have subs: "\<forall>ev\<in>set ?subs. kind_of ev \<noteq> Lookup \<and> kind_of ev \<noteq> Fetch"
    by (auto dest: kind_of_calls [where k = Submission, rotated])
  have cb: "callbacks ?new = [UpdateHttpResources expected (Inr ())]"
    by (simp add: callbacks_append callbacks_Nil callbacks_Cons callbacks_lookups_http01
          callbacks_fetches_http01 callbacks_submits_http01)
  have "complete_http01 order ?new expected"
    using submitted(1,2) by (rule complete_http01_fetched) auto
  moreover have "clean ?new"
    using clean_lookups_http01 [OF submitted(1)] clean_fetched_http [of cs expected]
      clean_other [OF subs]
    by (simp add: clean_append clean_Cons clean_Nil)
  ultimately show ?thesis
    using submitted(5) cb batch_with_http01_callback [of ?new expected "Inr ()" order]
    by (intro exI [of _ ?new]) simp
qed

lemma challenge_flow_batch:
  assumes run: "challenge_flow env config order tr = (res, tr')"
  shows "\<exists>new. tr' = tr @ new \<and> batch_rule order new
           \<and> (clean new \<and> (updateDnsRecords config \<noteq> None \<or> updateHttpResources config \<noteq> None)
                \<longrightarrow> length (callbacks new) = 1)"
proof (cases "updateDnsRecords config")
  case (Some upd)
  with run have "dns01_flow env config upd order tr = (res, tr')"
    by (simp add: challenge_flow_def)
  from dns01_flow_batch [OF this] show ?thesis by blast
next
  case None
  show ?thesis
  proof (cases "updateHttpResources config")
    case no_http: None
    with None run have "tr' = tr @ []"
      by (simp add: challenge_flow_def resolve_def)
    moreover have "batch_rule order []"
      by (rule batch_without_callback) simp
    ultimately show ?thesis using None no_http by blast
  next
    case (Some upd)
    with None run have "http01_flow env config upd order tr = (res, tr')"
      by (simp add: challenge_flow_def)
    from http01_flow_batch [OF this] show ?thesis by blast
  qed
qed

lemma complete_dns01_mono:
  "complete_dns01 order tr expected \<Longrightarrow> set tr \<subseteq> set tr' \<Longrightarrow> complete_dns01 order tr' expected"
  unfolding complete_dns01_def
  by (erule list_all2_mono) (auto split: option.splits)

lemma complete_http01_mono:
  "complete_http01 order tr expected \<Longrightarrow> set tr \<subseteq> set tr' \<Longrightarrow> complete_http01 order tr' expected"
  unfolding complete_http01_def
  by (erule list_all2_mono) (auto split: option.splits)

lemma batch_rule_framed:
  assumes rule: "batch_rule order new"
      and pre: "\<forall>ev\<in>set pre. kind_of ev \<notin> {Lookup, Fetch, Callback}"
      and post: "\<forall>ev\<in>set post. kind_of ev \<notin> {Lookup, Fetch, Callback}"
  shows "callbacks (pre @ new @ post) = callbacks new"
    and "clean (pre @ new @ post) \<longleftrightarrow> clean new"
    and "batch_rule order (pre @ new @ post)"
proof -
  show cb: "callbacks (pre @ new @ post) = callbacks new"
    using pre post by (simp add: callbacks_append callbacks_none)
  have "clean pre" "clean post"
    using pre post by (auto intro!: clean_other)
  then show cl: "clean (pre @ new @ post) \<longleftrightarrow> clean new"
    by (simp add: clean_append)
  have "complete_dns01 order (pre @ new @ post) expected"
    if "UpdateDnsRecords expected r \<in> set (pre @ new @ post)" for expected r
  proof -
    from that pre post have "UpdateDnsRecords expected r \<in> set new" by force
    with rule have "complete_dns01 order new expected" by (auto simp: batch_rule_def)
    then show ?thesis by (rule complete_dns01_mono) auto
  qed
  moreover have "complete_http01 order (pre @ new @ post) expected"
    if "UpdateHttpResources expected r \<in> set (pre @ new @ post)" for expected r
  proof -
    from that pre post have "UpdateHttpResources expected r \<in> set new" by force
    with rule have "complete_http01 order new expected" by (auto simp: batch_rule_def)
    then show ?thesis by (rule complete_http01_mono) auto
  qed
  ultimately show "batch_rule order (pre @ new @ post)"
    using rule unfolding batch_rule_def cb cl by blast
qed

section \<open>The sample run and the events of the other flow\<close>

lemmas run_defs = requestCertificate_def await_def call_def readiness_probe_def after_probe_def
  challenge_phase_def challenge_flow_def finalization_def resolve_def dns01_flow_def http01_flow_def
  promise_all_def confirm_records_def poll_branch_def dns01_of_def http01_of_def
  sample_collaborators_def sample_config_def timeout_ms_def delay_ms_def

lemma sample_dns01_run:
  "snd (requestCertificate (sample_collaborators two_authorizations (Inl TimeoutError) (Inr ()))
     (sample_config True http))
   = sample_dns01_before @ SetTimeout 5000
       # SubmitDns01 (Dns01Challenge ''a.test'') (Inr ()) # sample_dns01_after"
  by (simp add: run_defs sample_dns01_before_def sample_dns01_after_def
       sample_order_def two_authorizations_def sample_authorization_def sample_record_def)

lemma not_http01_event:
  "kind_of ev \<in> {Creation, StatusPoll, NameServers, Confirmation, Delay, Finalization, Retrieval}
     \<Longrightarrow> \<not> http01_event ev"
  by (cases ev) simp_all

lemma dns01_flow_no_http01:
  assumes "dns01_flow env config upd order tr = (res, tr')"
  shows "\<exists>new. tr' = tr @ new \<and> (\<forall>ev\<in>set new. \<not> http01_event ev)"
using assms proof (cases rule: dns01_flow_cases)
  case (lookup_failed pre a post)
  then show ?thesis by (auto simp: lookups_dns01_def)
next
  case (fetch_failed cs answers e)
  then show ?thesis by (auto simp: lookups_dns01_def calls_def)
next
  case (callback_failed cs expected e)
  then show ?thesis by (auto simp: lookups_dns01_def calls_def)
next
  case (confirm_failed cs expected mid e)
  then have "\<forall>ev\<in>set mid. \<not> http01_event ev"
    by (auto intro!: not_http01_event)
  with confirm_failed(5) show ?thesis by (auto simp: lookups_dns01_def calls_def)
next
  case (submitted cs expected mid submits)
  then have "\<forall>ev\<in>set mid. \<not> http01_event ev"
    by (auto intro!: not_http01_event)
  with submitted(7) show ?thesis by (auto simp: lookups_dns01_def calls_def)
qed

section \<open>The key algorithm registry\<close>

text \<open>
  C8. The registry is a total function on the three variants: \<open>ec\<close> is ECDSA over P-256,
  \<open>rsa\<close> is RSASSA-PKCS1-v1_5 with a 2048-bit modulus, the public exponent 65537 and
  SHA-256, \<open>rsa-4096\<close> the same with a 4096-bit modulus. For every algorithm,
  \<open>generateKeyPair\<close> asks the platform for a key pair with exactly the registry's
  parameters of that algorithm and the usages sign and verify; without an argument the
  algorithm is \<open>ec\<close>, which is also what the parameterless \<open>generateKeyPair\<close> of
  \<open>src/utils/crypto.ts\<close> asks for.
\<close>

theorem registry_parameters_and_generateKeyPair:
  "getAlgorithmProperties Ec = EcKeyParams ''ECDSA'' ''P-256''
   \<and> getAlgorithmProperties Rsa =
       RsaHashedKeyParams ''RSASSA-PKCS1-v1_5'' 2048 [0x01, 0x00, 0x01] ''SHA-256''
   \<and> getAlgorithmProperties Rsa4096 =
       RsaHashedKeyParams ''RSASSA-PKCS1-v1_5'' 4096 [0x01, 0x00, 0x01] ''SHA-256''
   \<and> big_endian [0x01, 0x00, 0x01] = 65537
   \<and> (a = Ec \<or> a = Rsa \<or> a = Rsa4096)
   \<and> generateKeyPair subtle (Some a) =
       generateKey subtle (getAlgorithmProperties a) True [''sign'', ''verify'']
   \<and> generateKeyPair subtle None = generateKeyPair subtle (Some Ec)
   \<and> generateKeyPair_p256 subtle = generateKeyPair subtle None"
  by (cases a)
     (simp_all add: big_endian_def generateKeyPair_def generateKeyPair_p256_def or_ec_def)

section \<open>The readiness probe\<close>

text \<open>
  C5. The fast path. When the order is created and the probe resolves, the invocation
  consists of exactly these calls: the creation, the probe, then \<open>finalize\<close>, the poll
  for \<open>valid\<close> with the configured timeout and \<open>getCertificate\<close>, each made once
  the one before it has resolved. No challenge is looked up, fetched or submitted and no
  callback is invoked, whatever the configuration holds; when the three calls resolve, the
  result is the certificate, the key pair of \<open>finalize\<close> and the order.
\<close>

theorem fast_path_skips_challenges:
  assumes created: "createOrder env [] (acmeAccount config) (domains config) = Inr order"
      and ready: "pollStatus env [CreateOrder (acmeAccount config) (domains config) (Inr order)]
                    order Ready 1 = Inr ()"
  shows "requestCertificate env config =
     (let t2 = [CreateOrder (acmeAccount config) (domains config) (Inr order),
                PollStatus order Ready 1 (Inr ())]
      in case finalize env t2 order of
           Inl e \<Rightarrow> (Inl e, t2 @ [Finalize order (Inl e)])
         | Inr keyPair \<Rightarrow>
            (let t3 = t2 @ [Finalize order (Inr keyPair)]
             in case pollStatus env t3 order Valid (timeout_ms config) of
                  Inl e \<Rightarrow> (Inl e, t3 @ [PollStatus order Valid (timeout_ms config) (Inl e)])
                | Inr _ \<Rightarrow>
                   (let t4 = t3 @ [PollStatus order Valid (timeout_ms config) (Inr ())]
                    in case getCertificate env t4 order of
                         Inl e \<Rightarrow> (Inl e, t4 @ [GetCertificate order (Inl e)])
                       | Inr cert \<Rightarrow>
                           (Inr \<lparr>certificate = cert, certKeyPair = keyPair, acmeOrder = order\<rparr>,
                            t4 @ [GetCertificate order (Inr cert)]))))"
  using created ready
  by (simp add: requestCertificate_def await_def call_def readiness_probe_def after_probe_def
        finalization_def resolve_def Let_def split: sum.splits)

theorem fast_path_skips_challenges_witness:
  "requestCertificate (sample_collaborators two_authorizations (Inr ()) (Inl TimeoutError))
     (sample_config True True) =
   (Inr \<lparr>certificate = ''-----BEGIN CERTIFICATE-----'', certKeyPair = sample_key_pair,
         acmeOrder = sample_order two_authorizations\<rparr>,
    [CreateOrder (Account ''https://ca.test/acct/7'') [''a.test'', ''b.test'']
       (Inr (sample_order two_authorizations)),
     PollStatus (sample_order two_authorizations) Ready 1 (Inr ()),
     Finalize (sample_order two_authorizations) (Inr sample_key_pair),
     PollStatus (sample_order two_authorizations) Valid 30000 (Inr ()),
     GetCertificate (sample_order two_authorizations) (Inr ''-----BEGIN CERTIFICATE-----'')])"
proof -
  let ?env = "sample_collaborators two_authorizations (Inr ()) (Inl TimeoutError)"
  let ?cfg = "sample_config True True"
  have created: "createOrder ?env [] (acmeAccount ?cfg) (domains ?cfg)
                   = Inr (sample_order two_authorizations)"
    by (simp add: sample_collaborators_def)
  have ready: "pollStatus ?env
                 [CreateOrder (acmeAccount ?cfg) (domains ?cfg)
                    (Inr (sample_order two_authorizations))]
                 (sample_order two_authorizations) Ready 1 = Inr ()"
    by (simp add: sample_collaborators_def)
  show ?thesis
    unfolding fast_path_skips_challenges [OF created ready]
    by (simp add: sample_collaborators_def sample_config_def timeout_ms_def)
qed

text \<open>
  C1, as the claim states it, fails: the probe is rejected with an error that is not a
  timeout, and \<open>requestCertificate\<close> does not raise it. It takes the rejection for
  "challenge required", polls for \<open>ready\<close> with the full timeout and returns a
  certificate.
\<close>

theorem probe_rejection_propagates_counterexample:
  "requestCertificate
     (sample_collaborators two_authorizations (Inl (Rejected ''500 Internal Server Error''))
        (Inr ()))
     (sample_config False False) =
   (Inr \<lparr>certificate = ''-----BEGIN CERTIFICATE-----'', certKeyPair = sample_key_pair,
         acmeOrder = sample_order two_authorizations\<rparr>,
    [CreateOrder (Account ''https://ca.test/acct/7'') [''a.test'', ''b.test'']
       (Inr (sample_order two_authorizations)),
     PollStatus (sample_order two_authorizations) Ready 1
       (Inl (Rejected ''500 Internal Server Error'')),
     PollStatus (sample_order two_authorizations) Ready 30000 (Inr ()),
     Finalize (sample_order two_authorizations) (Inr sample_key_pair),
     PollStatus (sample_order two_authorizations) Valid 30000 (Inr ()),
     GetCertificate (sample_order two_authorizations) (Inr ''-----BEGIN CERTIFICATE-----'')])"
  by (simp add: requestCertificate_def await_def call_def readiness_probe_def after_probe_def
        challenge_phase_def challenge_flow_def finalization_def resolve_def
        sample_collaborators_def sample_config_def timeout_ms_def)

text \<open>
  C1, amended. Every rejection of the probe, a timeout or any other error, is caught and
  dropped: it leaves \<open>challengeRequired\<close> set, and the invocation goes on with the
  challenge phase and, when that resolves, with the finalization. What
  \<open>requestCertificate\<close> returns is what these return.
\<close>

theorem probe_rejection_means_challenge_required:
  assumes created: "createOrder env [] (acmeAccount config) (domains config) = Inr order"
      and probe: "pollStatus env [CreateOrder (acmeAccount config) (domains config) (Inr order)]
                    order Ready 1 = Inl e"
  shows "requestCertificate env config =
           await (challenge_phase env config order) (\<lambda>_. finalization env config order)
             [CreateOrder (acmeAccount config) (domains config) (Inr order),
              PollStatus order Ready 1 (Inl e)]"
  using created probe
  by (simp add: requestCertificate_def await_def call_def readiness_probe_def after_probe_def)

theorem probe_rejection_means_challenge_required_witness:
  "requestCertificate
     (sample_collaborators two_authorizations (Inl (Rejected ''500 Internal Server Error''))
        (Inr ()))
     (sample_config True False) =
   await (challenge_phase
            (sample_collaborators two_authorizations
               (Inl (Rejected ''500 Internal Server Error'')) (Inr ()))
            (sample_config True False) (sample_order two_authorizations))
     (\<lambda>_. finalization
            (sample_collaborators two_authorizations
               (Inl (Rejected ''500 Internal Server Error'')) (Inr ()))
            (sample_config True False) (sample_order two_authorizations))
     [CreateOrder (acmeAccount (sample_config True False)) (domains (sample_config True False))
        (Inr (sample_order two_authorizations)),
      PollStatus (sample_order two_authorizations) Ready 1
        (Inl (Rejected ''500 Internal Server Error''))]"
proof -
  let ?env = "sample_collaborators two_authorizations
                (Inl (Rejected ''500 Internal Server Error'')) (Inr ())"
  let ?cfg = "sample_config True False"
  have created: "createOrder ?env [] (acmeAccount ?cfg) (domains ?cfg)
                   = Inr (sample_order two_authorizations)"
    by (simp add: sample_collaborators_def)
  have probe: "pollStatus ?env
                 [CreateOrder (acmeAccount ?cfg) (domains ?cfg)
                    (Inr (sample_order two_authorizations))]
                 (sample_order two_authorizations) Ready 1
               = Inl (Rejected ''500 Internal Server Error'')"
    by (simp add: sample_collaborators_def)
  show ?thesis
    by (rule probe_rejection_means_challenge_required [OF created probe])
qed

section \<open>A required challenge without a callback\<close>

text \<open>
  C2, as the claim states it, fails: the probe times out, the configuration has neither
  callback, and the error that \<open>requestCertificate\<close> raises is the timeout of the poll
  for \<open>ready\<close>, after its full budget; it is not an \<open>Error\<close> of the workflow's own.
\<close>

theorem no_callback_configuration_error_counterexample:
  "requestCertificate
     (sample_collaborators two_authorizations (Inl TimeoutError) (Inl TimeoutError))
     (sample_config False False) =
   (Inl TimeoutError,
    [CreateOrder (Account ''https://ca.test/acct/7'') [''a.test'', ''b.test'']
       (Inr (sample_order two_authorizations)),
     PollStatus (sample_order two_authorizations) Ready 1 (Inl TimeoutError),
     PollStatus (sample_order two_authorizations) Ready 30000 (Inl TimeoutError)])"
  by (simp add: requestCertificate_def await_def call_def readiness_probe_def after_probe_def
        challenge_phase_def challenge_flow_def finalization_def resolve_def
        sample_collaborators_def sample_config_def timeout_ms_def)

text \<open>
  C2, amended. When the probe is rejected and the configuration has neither callback, no
  challenge flow runs and no error is raised for the missing callback: the next call is the
  poll for \<open>ready\<close> with the configured timeout. When that poll is rejected (a
  timeout, when the order does not become ready in time), \<open>requestCertificate\<close>
  raises the poll's error and makes no further call; when it resolves, the finalization
  follows.
\<close>

theorem no_callback_waits_for_ready:
  assumes created: "createOrder env [] (acmeAccount config) (domains config) = Inr order"
      and probe: "pollStatus env [CreateOrder (acmeAccount config) (domains config) (Inr order)]
                    order Ready 1 = Inl e"
      and no_dns: "updateDnsRecords config = None"
      and no_http: "updateHttpResources config = None"
  shows "requestCertificate env config =
     (let t2 = [CreateOrder (acmeAccount config) (domains config) (Inr order),
                PollStatus order Ready 1 (Inl e)]
      in case pollStatus env t2 order Ready (timeout_ms config) of
           Inl e' \<Rightarrow> (Inl e', t2 @ [PollStatus order Ready (timeout_ms config) (Inl e')])
         | Inr _ \<Rightarrow>
             finalization env config order
               (t2 @ [PollStatus order Ready (timeout_ms config) (Inr ())]))"
  using created probe no_dns no_http
  by (simp add: requestCertificate_def await_def call_def readiness_probe_def after_probe_def
        challenge_phase_def challenge_flow_def resolve_def Let_def split: sum.splits)

theorem no_callback_waits_for_ready_witness:
  "requestCertificate
     (sample_collaborators two_authorizations (Inl TimeoutError) (Inl (Rejected ''gone'')))
     (sample_config False False) =
   (Inl (Rejected ''gone''),
    [CreateOrder (Account ''https://ca.test/acct/7'') [''a.test'', ''b.test'']
       (Inr (sample_order two_authorizations)),
     PollStatus (sample_order two_authorizations) Ready 1 (Inl TimeoutError),
     PollStatus (sample_order two_authorizations) Ready 30000 (Inl (Rejected ''gone''))])"
proof -
  let ?env = "sample_collaborators two_authorizations (Inl TimeoutError)
                (Inl (Rejected ''gone''))"
  let ?cfg = "sample_config False False"
  have created: "createOrder ?env [] (acmeAccount ?cfg) (domains ?cfg)
                   = Inr (sample_order two_authorizations)"
    by (simp add: sample_collaborators_def)
  have probe: "pollStatus ?env
                 [CreateOrder (acmeAccount ?cfg) (domains ?cfg)
                    (Inr (sample_order two_authorizations))]
                 (sample_order two_authorizations) Ready 1 = Inl TimeoutError"
    by (simp add: sample_collaborators_def)
  have no_dns: "updateDnsRecords ?cfg = None" and no_http: "updateHttpResources ?cfg = None"
    by (simp_all add: sample_config_def)
  show ?thesis
    unfolding no_callback_waits_for_ready [OF created probe no_dns no_http]
    by (simp add: sample_collaborators_def sample_config_def timeout_ms_def)
qed

section \<open>The challenge flows\<close>

text \<open>
  C7. With both callbacks in the configuration the flow that runs is the DNS-01 flow: the
  challenge flow of the configuration is the DNS-01 flow with \<open>updateDnsRecords\<close>,
  the invocation is, result and trace, the one of the same configuration without
  \<open>updateHttpResources\<close>, and its trace has no lookup of an \<open>http-01\<close> challenge,
  no fetch of an HTTP resource, no call of \<open>updateHttpResources\<close> and no submission of
  an \<open>http-01\<close> challenge.
\<close>

theorem dns01_takes_precedence:
  assumes dns: "updateDnsRecords config = Some updateDns"
      and http: "updateHttpResources config = Some updateHttp"
  shows "challenge_flow env config order = dns01_flow env config updateDns order
       \<and> requestCertificate env config
           = requestCertificate env (config\<lparr>updateHttpResources := None\<rparr>)
       \<and> (\<forall>ev\<in>set (snd (requestCertificate env config)). \<not> http01_event ev)"
proof (intro conjI)
  show flow: "challenge_flow env config order = dns01_flow env config updateDns order" for order
    using dns by (simp add: challenge_flow_def)
  have "poll_branch env (config\<lparr>updateHttpResources := None\<rparr>) = poll_branch env config"
    by (simp add: poll_branch_def timeout_ms_def cong: sum.case_cong)
  then have "confirm_records env (config\<lparr>updateHttpResources := None\<rparr>)
          = confirm_records env config"
    by (intro ext) (simp add: confirm_records_def)
  then have "challenge_flow env (config\<lparr>updateHttpResources := None\<rparr>) order
          = challenge_flow env config order" for order
    using dns by (simp add: challenge_flow_def dns01_flow_def delay_ms_def)
  then have "challenge_phase env (config\<lparr>updateHttpResources := None\<rparr>) order
          = challenge_phase env config order" for order
    by (simp add: challenge_phase_def timeout_ms_def)
  moreover have "finalization env (config\<lparr>updateHttpResources := None\<rparr>) order
          = finalization env config order" for order
    by (simp add: finalization_def timeout_ms_def)
  ultimately have "after_probe env (config\<lparr>updateHttpResources := None\<rparr>)
          = after_probe env config"
    by (intro ext) (simp add: after_probe_def)
  then show "requestCertificate env config
           = requestCertificate env (config\<lparr>updateHttpResources := None\<rparr>)"
    by (simp add: requestCertificate_def)
  show "\<forall>ev\<in>set (snd (requestCertificate env config)). \<not> http01_event ev"
  proof (cases rule: requestCertificate_cases [of env config])
    case (not_created e)
    then show ?thesis by simp
  next
    case (ready_at_once order fin)
    then show ?thesis by auto
  next
    case (flow_failed order e err tr')
    from dns01_flow_no_http01 [OF flow_failed(3) [unfolded flow]] flow_failed(4)
    show ?thesis by auto
  next
    case (not_ready order e err tr')
    from dns01_flow_no_http01 [OF not_ready(3) [unfolded flow]] not_ready(4)
    show ?thesis by auto
  next
    case (finalizing order e tr' fin)
    from dns01_flow_no_http01 [OF finalizing(3) [unfolded flow]] finalizing(4,5)
    show ?thesis by auto
  qed
qed

theorem dns01_takes_precedence_witness:
  "requestCertificate (sample_collaborators two_authorizations (Inl TimeoutError) (Inr ()))
     (sample_config True True)
   = requestCertificate (sample_collaborators two_authorizations (Inl TimeoutError) (Inr ()))
       ((sample_config True True)\<lparr>updateHttpResources := None\<rparr>)
   \<and> filter http01_event
         (snd (requestCertificate
                 (sample_collaborators two_authorizations (Inl TimeoutError) (Inr ()))
                 (sample_config True True))) = []
   \<and> snd (requestCertificate (sample_collaborators two_authorizations (Inl TimeoutError) (Inr ()))
            (sample_config True True))
      = sample_dns01_before @ SetTimeout 5000
          # SubmitDns01 (Dns01Challenge ''a.test'') (Inr ()) # sample_dns01_after"
proof -
  let ?env = "sample_collaborators two_authorizations (Inl TimeoutError) (Inr ())"
  let ?cfg = "sample_config True True"
  have dns: "updateDnsRecords ?cfg = Some (\<lambda>tr records. Inr ())"
    and http: "updateHttpResources ?cfg = Some (\<lambda>tr resources. Inr ())"
    by (simp_all add: sample_config_def)
  from dns01_takes_precedence [OF dns http, of ?env] sample_dns01_run [of True]
  show ?thesis by (simp add: filter_empty_conv)
qed


text \<open>
  C6. In the DNS-01 flow (the order created, the probe rejected, \<open>updateDnsRecords\<close>
  configured), when some authorization has no \<open>dns-01\<close> challenge the invocation
  fails with \<open>Error("Cannot find dns01 challenge for authorization ...")\<close>, the text
  being that of the first such authorization; and the trace ends with the lookup on that
  authorization: nothing is fetched, no callback is invoked, nothing is submitted, for any
  authorization, and nothing is polled or retried.
\<close>

theorem missing_dns01_challenge_fails_fast:
  assumes created: "createOrder env [] (acmeAccount config) (domains config) = Inr order"
      and probe: "pollStatus env [CreateOrder (acmeAccount config) (domains config) (Inr order)]
                    order Ready 1 = Inl e"
      and dns: "updateDnsRecords config = Some updateDns"
      and lacking: "\<exists>a\<in>set (authorizations order). findDns01Challenge a = None"
  shows "\<exists>pre a post.
           authorizations order = pre @ a # post
         \<and> (\<forall>x\<in>set pre. findDns01Challenge x \<noteq> None)
         \<and> findDns01Challenge a = None
         \<and> requestCertificate env config =
             (Inl (Error (''Cannot find dns01 challenge for authorization '' @ json a @ ''.'')),
              [CreateOrder (acmeAccount config) (domains config) (Inr order),
               PollStatus order Ready 1 (Inl e)] @ lookups_dns01 (pre @ [a]))"
proof -
  let ?t2 = "[CreateOrder (acmeAccount config) (domains config) (Inr order),
              PollStatus order Ready 1 (Inl e)]"
  have never: False if "map findDns01Challenge (authorizations order) = map Some cs" for cs
  proof -
    from lacking obtain a where "a \<in> set (authorizations order)" "findDns01Challenge a = None"
      by blast
    then have "None \<in> set (map findDns01Challenge (authorizations order))"
      by force
    with that show False by auto
  qed
  obtain res tr' where flow: "dns01_flow env config updateDns order ?t2 = (res, tr')"
    by (cases "dns01_flow env config updateDns order ?t2")
  from flow obtain pre a post where
    found: "authorizations order = pre @ a # post"
      "\<forall>x\<in>set pre. findDns01Challenge x \<noteq> None" "findDns01Challenge a = None"
    and res: "res = Inl (Error (''Cannot find dns01 challenge for authorization ''
                                  @ json a @ ''.''))"
    and tr': "tr' = ?t2 @ lookups_dns01 (pre @ [a])"
    using never by (cases rule: dns01_flow_cases) blast+
  from created probe have "requestCertificate env config
      = await (challenge_phase env config order) (\<lambda>_. finalization env config order) ?t2"
    by (simp add: requestCertificate_def await_def call_def readiness_probe_def after_probe_def)
  with flow res dns have "requestCertificate env config
      = (Inl (Error (''Cannot find dns01 challenge for authorization '' @ json a @ ''.'')), tr')"
    by (simp add: challenge_phase_def challenge_flow_def await_def)
  with found tr' show ?thesis by blast
qed

theorem missing_dns01_challenge_fails_fast_witness:
  "requestCertificate
     (sample_collaborators
        [sample_authorization ''a.test'' True True, sample_authorization ''b.test'' False True,
         sample_authorization ''c.test'' True True]
        (Inl TimeoutError) (Inr ()))
     (sample_config True False)
   = (Inl (Error ''Cannot find dns01 challenge for authorization {identifier:b.test}.''),
      [CreateOrder (Account ''https://ca.test/acct/7'') [''a.test'', ''b.test'']
         (Inr (sample_order
                 [sample_authorization ''a.test'' True True,
                  sample_authorization ''b.test'' False True,
                  sample_authorization ''c.test'' True True])),
       PollStatus
         (sample_order
            [sample_authorization ''a.test'' True True,
             sample_authorization ''b.test'' False True,
             sample_authorization ''c.test'' True True])
         Ready 1 (Inl TimeoutError),
       FindDns01Challenge (sample_authorization ''a.test'' True True)
         (Some (Dns01Challenge ''a.test'')),
       FindDns01Challenge (sample_authorization ''b.test'' False True) None])"
proof -
  let ?auths = "[sample_authorization ''a.test'' True True,
                 sample_authorization ''b.test'' False True,
                 sample_authorization ''c.test'' True True]"
  let ?env = "sample_collaborators ?auths (Inl TimeoutError) (Inr ())"
  let ?cfg = "sample_config True False"
  have created: "createOrder ?env [] (acmeAccount ?cfg) (domains ?cfg) = Inr (sample_order ?auths)"
    by (simp add: sample_collaborators_def)
  have probe: "pollStatus ?env
                 [CreateOrder (acmeAccount ?cfg) (domains ?cfg) (Inr (sample_order ?auths))]
                 (sample_order ?auths) Ready 1 = Inl TimeoutError"
    by (simp add: sample_collaborators_def)
  have dns: "updateDnsRecords ?cfg = Some (\<lambda>tr records. Inr ())"
    by (simp add: sample_config_def)
  have lacking: "\<exists>a\<in>set (authorizations (sample_order ?auths)). findDns01Challenge a = None"
    by (simp add: sample_order_def sample_authorization_def)
  from missing_dns01_challenge_fails_fast [OF created probe dns lacking]
  obtain pre a post where
    split: "authorizations (sample_order ?auths) = pre @ a # post"
    and found: "\<forall>x\<in>set pre. findDns01Challenge x \<noteq> None"
    and missing: "findDns01Challenge a = None"
    and run: "requestCertificate ?env ?cfg =
             (Inl (Error (''Cannot find dns01 challenge for authorization '' @ json a @ ''.'')),
              [CreateOrder (acmeAccount ?cfg) (domains ?cfg) (Inr (sample_order ?auths)),
               PollStatus (sample_order ?auths) Ready 1 (Inl TimeoutError)]
              @ lookups_dns01 (pre @ [a]))"
    by blast
  from split found missing
  have "pre = [sample_authorization ''a.test'' True True]"
    and "a = sample_authorization ''b.test'' False True"
    by (auto simp: sample_order_def sample_authorization_def Cons_eq_append_conv)
  with run show ?thesis
    by (simp add: lookups_dns01_def sample_authorization_def sample_config_def)
qed

text \<open>
  C4. In an invocation that needs a challenge (the order created, the probe rejected):
  a fulfillment callback is invoked at most once; the list handed to
  \<open>updateDnsRecords\<close> (to \<open>updateHttpResources\<close>) has exactly one element for each
  authorization of the order, in order, namely the record (the resource) that the
  authorization's challenge answered; when a lookup found no challenge or a fetch was
  rejected, no callback is invoked at all; and when neither happened and a callback is
  configured, the callback is invoked exactly once.
\<close>

theorem callback_invoked_once_with_complete_batch:
  assumes created: "createOrder env [] (acmeAccount config) (domains config) = Inr order"
      and probe: "pollStatus env [CreateOrder (acmeAccount config) (domains config) (Inr order)]
                    order Ready 1 = Inl e"
  shows "length (callbacks (snd (requestCertificate env config))) \<le> 1
       \<and> (\<forall>expected r.
            UpdateDnsRecords expected r \<in> set (snd (requestCertificate env config)) \<longrightarrow>
            complete_dns01 order (snd (requestCertificate env config)) expected)
       \<and> (\<forall>expected r.
            UpdateHttpResources expected r \<in> set (snd (requestCertificate env config)) \<longrightarrow>
            complete_http01 order (snd (requestCertificate env config)) expected)
       \<and> (\<not> clean (snd (requestCertificate env config)) \<longrightarrow>
            callbacks (snd (requestCertificate env config)) = [])
       \<and> (clean (snd (requestCertificate env config))
            \<and> (updateDnsRecords config \<noteq> None \<or> updateHttpResources config \<noteq> None) \<longrightarrow>
            length (callbacks (snd (requestCertificate env config))) = 1)"
proof -
  let ?T = "snd (requestCertificate env config)"
  let ?t2 = "[CreateOrder (acmeAccount config) (domains config) (Inr order),
              PollStatus order Ready 1 (Inl e)]"
  obtain res tr' where flow: "challenge_flow env config order ?t2 = (res, tr')"
    by (cases "challenge_flow env config order ?t2")
  from challenge_flow_batch [OF flow] obtain new where
    new: "tr' = ?t2 @ new" "batch_rule order new"
      "clean new \<and> (updateDnsRecords config \<noteq> None \<or> updateHttpResources config \<noteq> None)
         \<longrightarrow> length (callbacks new) = 1"
    by blast
  have "\<exists>post. ?T = ?t2 @ new @ post
          \<and> (\<forall>ev\<in>set post. kind_of ev \<notin> {Lookup, Fetch, Callback})"
  proof (cases rule: requestCertificate_cases [of env config])
    case (not_created e')
    with created show ?thesis by simp
  next
    case (ready_at_once order' fin)
    with created probe show ?thesis by simp
  next
    case (flow_failed order' e' err tr'')
    with created probe flow new(1) have "?T = ?t2 @ new @ []" by simp
    then show ?thesis by (intro exI [of _ "[]"]) simp
  next
    case (not_ready order' e' err tr'')
    with created probe flow new(1)
    have "?T = ?t2 @ new @ [PollStatus order Ready (timeout_ms config) (Inl err)]" by simp
    then show ?thesis
      by (intro exI [of _ "[PollStatus order Ready (timeout_ms config) (Inl err)]"]) simp
  next
    case (finalizing order' e' tr'' fin)
    with created probe flow new(1)
    have "?T = ?t2 @ new @ PollStatus order Ready (timeout_ms config) (Inr ()) # fin"
      and "\<forall>ev\<in>set fin. (\<exists>r. ev = Finalize order r)
           \<or> (\<exists>r. ev = PollStatus order Valid (timeout_ms config) r)
           \<or> (\<exists>r. ev = GetCertificate order r)"
      by simp_all
    then show ?thesis
      by (intro exI [of _ "PollStatus order Ready (timeout_ms config) (Inr ()) # fin"]) auto
  qed
  then obtain post where
    T: "?T = ?t2 @ new @ post" and post: "\<forall>ev\<in>set post. kind_of ev \<notin> {Lookup, Fetch, Callback}"
    by blast
  have pre: "\<forall>ev\<in>set ?t2. kind_of ev \<notin> {Lookup, Fetch, Callback}" by simp
  note framed = batch_rule_framed [OF new(2) pre post]
  from framed(3) have "batch_rule order ?T" by (simp only: T)
  moreover from framed(1) have "callbacks ?T = callbacks new" by (simp only: T)
  moreover from framed(2) have "clean ?T \<longleftrightarrow> clean new" by (simp only: T)
  ultimately show ?thesis
    using new(3) unfolding batch_rule_def by simp
qed

theorem callback_invoked_once_with_complete_batch_witness:
  "callbacks (snd (requestCertificate
      (sample_collaborators two_authorizations (Inl TimeoutError) (Inr ()))
      (sample_config True False)))
     = [UpdateDnsRecords [sample_record ''a.test'', sample_record ''b.test''] (Inr ())]
   \<and> complete_dns01 (sample_order two_authorizations)
       (snd (requestCertificate
          (sample_collaborators two_authorizations (Inl TimeoutError) (Inr ()))
          (sample_config True False)))
       [sample_record ''a.test'', sample_record ''b.test'']
   \<and> length (callbacks (snd (requestCertificate
        (sample_collaborators two_authorizations (Inl TimeoutError) (Inr ()))
        (sample_config True False)))) = 1"
proof -
  let ?env = "sample_collaborators two_authorizations (Inl TimeoutError) (Inr ())"
  let ?cfg = "sample_config True False"
  let ?T = "snd (requestCertificate ?env ?cfg)"
  have created: "createOrder ?env [] (acmeAccount ?cfg) (domains ?cfg)
                   = Inr (sample_order two_authorizations)"
    by (simp add: sample_collaborators_def)
  have probe: "pollStatus ?env
                 [CreateOrder (acmeAccount ?cfg) (domains ?cfg)
                    (Inr (sample_order two_authorizations))]
                 (sample_order two_authorizations) Ready 1 = Inl TimeoutError"
    by (simp add: sample_collaborators_def)
  note rule = callback_invoked_once_with_complete_batch [OF created probe]
  have configured: "updateDnsRecords ?cfg \<noteq> None"
    by (simp add: sample_config_def)
  have clean: "clean ?T"
    unfolding sample_dns01_run
    by (simp add: clean_def sample_dns01_before_def sample_dns01_after_def)
  have handed: "UpdateDnsRecords [sample_record ''a.test'', sample_record ''b.test''] (Inr ())
                  \<in> set ?T"
    unfolding sample_dns01_run by (simp add: sample_dns01_before_def)
  have cb: "callbacks ?T
              = [UpdateDnsRecords [sample_record ''a.test'', sample_record ''b.test''] (Inr ())]"
    unfolding sample_dns01_run
    by (simp add: callbacks_def sample_dns01_before_def sample_dns01_after_def)
  from rule handed have "complete_dns01 (sample_order two_authorizations) ?T
                           [sample_record ''a.test'', sample_record ''b.test'']"
    by blast
  moreover from rule clean configured have "length (callbacks ?T) = 1"
    by blast
  ultimately show ?thesis using cb by simp
qed

text \<open>
  C3. With \<open>updateDnsRecords\<close> configured: whenever a \<open>dns-01\<close> challenge is
  submitted, the settle delay \<open>delayAfterDnsRecordsConfirmed\<close> has been started (and
  awaited) before; whenever the delay is started, \<open>updateDnsRecords\<close> has resolved
  before, for every record handed to it a \<open>pollDnsTxtRecord\<close> for that record's name
  and content has resolved before, no confirmation before it was rejected and none comes
  after it; and whenever \<open>finalize\<close> is called, a poll of the order for \<open>ready\<close>
  has resolved before.
\<close>

theorem dns01_submission_order:
  assumes dns: "updateDnsRecords config = Some upd"
  shows "(\<forall>pre c r post.
            snd (requestCertificate env config) = pre @ SubmitDns01 c r # post \<longrightarrow>
            SetTimeout (delay_ms config) \<in> set pre)
       \<and> (\<forall>pre d post.
            snd (requestCertificate env config) = pre @ SetTimeout d # post \<longrightarrow>
              (\<exists>expected. UpdateDnsRecords expected (Inr ()) \<in> set pre
                 \<and> (\<forall>r\<in>set expected. \<exists>ips.
                       PollDnsTxtRecord (name r) (content r) (resolveDns config) ips
                         (timeout_ms config) (Inr ()) \<in> set pre))
            \<and> (\<forall>ev\<in>set pre. kind_of ev = Confirmation \<longrightarrow> \<not> rejected ev)
            \<and> (\<forall>ev\<in>set post. kind_of ev \<noteq> Confirmation))
       \<and> (\<forall>pre order r post.
            snd (requestCertificate env config) = pre @ Finalize order r # post \<longrightarrow>
            (\<exists>budget. PollStatus order Ready budget (Inr ()) \<in> set pre))"
proof (intro conjI allI impI)
  fix pre c r post
  assume split: "snd (requestCertificate env config) = pre @ SubmitDns01 c r # post"
  from dns show "SetTimeout (delay_ms config) \<in> set pre"
  proof (cases rule: dns01_request_trace [of config upd env])
    case no_delay
    with split show ?thesis by auto
  next
    case (delayed before expected after)
    from delayed(1) split
    have "before @ SetTimeout (delay_ms config) # after = pre @ SubmitDns01 c r # post"
      by simp
    moreover from delayed(2) have "SubmitDns01 c r \<notin> set before" by auto
    ultimately obtain m where "pre = before @ SetTimeout (delay_ms config) # m"
      using split_past [of before "SetTimeout (delay_ms config)" after pre "SubmitDns01 c r" post]
      by auto
    then show ?thesis by simp
  qed
next
  fix pre d post
  assume split: "snd (requestCertificate env config) = pre @ SetTimeout d # post"
  from dns have "(\<exists>expected. UpdateDnsRecords expected (Inr ()) \<in> set pre
                 \<and> (\<forall>r\<in>set expected. \<exists>ips.
                       PollDnsTxtRecord (name r) (content r) (resolveDns config) ips
                         (timeout_ms config) (Inr ()) \<in> set pre))
            \<and> (\<forall>ev\<in>set pre. kind_of ev = Confirmation \<longrightarrow> \<not> rejected ev)
            \<and> (\<forall>ev\<in>set post. kind_of ev \<noteq> Confirmation)"
  proof (cases rule: dns01_request_trace [of config upd env])
    case no_delay
    with split show ?thesis by auto
  next
    case (delayed before expected after)
    from delayed(1) split have "SetTimeout d \<in> set (before @ SetTimeout (delay_ms config) # after)"
      by (metis in_set_conv_decomp)
    with delayed(2,6) have d: "d = delay_ms config" by auto
    from delayed(1) split d
    have "before @ SetTimeout d # after = pre @ SetTimeout d # post"
      by simp
    moreover from delayed(2) have "SetTimeout d \<notin> set before" by auto
    moreover from delayed(6) have "SetTimeout d \<notin> set after" by auto
    ultimately have "pre = before" "post = after"
      using split_unique [of before "SetTimeout d" after pre post] by auto
    with delayed(3-6) show ?thesis by auto
  qed
  then show "\<exists>expected. UpdateDnsRecords expected (Inr ()) \<in> set pre
                 \<and> (\<forall>r\<in>set expected. \<exists>ips.
                       PollDnsTxtRecord (name r) (content r) (resolveDns config) ips
                         (timeout_ms config) (Inr ()) \<in> set pre)"
    and "\<forall>ev\<in>set pre. kind_of ev = Confirmation \<longrightarrow> \<not> rejected ev"
    and "\<forall>ev\<in>set post. kind_of ev \<noteq> Confirmation"
    by blast+
next
  fix pre order r post
  assume "snd (requestCertificate env config) = pre @ Finalize order r # post"
  then show "\<exists>budget. PollStatus order Ready budget (Inr ()) \<in> set pre"
    by (rule finalize_follows_ready)
qed

theorem dns01_submission_order_witness:
  "snd (requestCertificate (sample_collaborators two_authorizations (Inl TimeoutError) (Inr ()))
          (sample_config True False))
     = sample_dns01_before @ SetTimeout 5000
         # SubmitDns01 (Dns01Challenge ''a.test'') (Inr ()) # sample_dns01_after
   \<and> SetTimeout 5000 \<in> set (sample_dns01_before @ [SetTimeout 5000])
   \<and> UpdateDnsRecords [sample_record ''a.test'', sample_record ''b.test''] (Inr ())
         \<in> set sample_dns01_before
   \<and> (\<exists>ips. PollDnsTxtRecord ''_acme-challenge.a.test'' ''digest-a.test'' None ips 30000
                 (Inr ()) \<in> set sample_dns01_before)
   \<and> (\<exists>ips. PollDnsTxtRecord ''_acme-challenge.b.test'' ''digest-b.test'' None ips 30000
                 (Inr ()) \<in> set sample_dns01_before)
   \<and> (\<exists>budget. PollStatus (sample_order two_authorizations) Ready budget (Inr ())
         \<in> set (sample_dns01_before @ SetTimeout 5000
                  # SubmitDns01 (Dns01Challenge ''a.test'') (Inr ())
                  # take 2 sample_dns01_after))"
proof -
  let ?env = "sample_collaborators two_authorizations (Inl TimeoutError) (Inr ())"
  let ?cfg = "sample_config True False"
  let ?T = "snd (requestCertificate ?env ?cfg)"
  let ?a = "SubmitDns01 (Dns01Challenge ''a.test'') (Inr ())"
  have dns: "updateDnsRecords ?cfg = Some (\<lambda>tr records. Inr ())"
    by (simp add: sample_config_def)
  have settings: "delay_ms ?cfg = 5000" "timeout_ms ?cfg = 30000" "resolveDns ?cfg = None"
    by (simp_all add: delay_ms_def timeout_ms_def sample_config_def)
  note order = dns01_submission_order [OF dns, of ?env]
  note submitted = order [THEN conjunct1, rule_format]
  note delayed = order [THEN conjunct2, THEN conjunct1, rule_format]
  note finalized = order [THEN conjunct2, THEN conjunct2, rule_format]
  have run: "?T = sample_dns01_before @ SetTimeout 5000 # ?a # sample_dns01_after"
    by (rule sample_dns01_run)
  have "?T = (sample_dns01_before @ [SetTimeout 5000]) @ ?a # sample_dns01_after"
    unfolding run by simp
  from submitted [OF this]
  have 1: "SetTimeout 5000 \<in> set (sample_dns01_before @ [SetTimeout 5000])"
    unfolding settings .
  from delayed [OF run] obtain expected where
    handed: "UpdateDnsRecords expected (Inr ()) \<in> set sample_dns01_before"
    and confirmed: "\<forall>r\<in>set expected. \<exists>ips.
               PollDnsTxtRecord (name r) (content r) None ips 30000 (Inr ())
                 \<in> set sample_dns01_before"
    unfolding settings by blast
  from handed have expected: "expected = [sample_record ''a.test'', sample_record ''b.test'']"
    by (simp add: sample_dns01_before_def)
  from confirmed
  have 2: "\<exists>ips. PollDnsTxtRecord ''_acme-challenge.a.test'' ''digest-a.test'' None ips 30000
                 (Inr ()) \<in> set sample_dns01_before"
    "\<exists>ips. PollDnsTxtRecord ''_acme-challenge.b.test'' ''digest-b.test'' None ips 30000
                 (Inr ()) \<in> set sample_dns01_before"
    unfolding expected by (simp_all add: sample_record_def)
  have "?T = (sample_dns01_before @ SetTimeout 5000 # ?a # take 2 sample_dns01_after)
               @ Finalize (sample_order two_authorizations) (Inr sample_key_pair)
               # drop 3 sample_dns01_after"
    unfolding run by (simp add: sample_dns01_after_def)
  from finalized [OF this]
  have 3: "\<exists>budget. PollStatus (sample_order two_authorizations) Ready budget (Inr ())
         \<in> set (sample_dns01_before @ SetTimeout 5000 # ?a # take 2 sample_dns01_after)" .
  from run 1 2 3 handed [unfolded expected] show ?thesis by blast
qed

section \<open>Importing a PEM private key\<close>

lemma map_of_publicJwk:
  "map_of (publicJwk exported)
     = ((map_of exported)(''key_ops'' \<mapsto> JwkStrings [''verify'']))(''d'' := None)"
  by (simp add: publicJwk_def delete_conv' update_conv')

lemma sample_subtle_keeps_flag: "keeps_extractable_flag sample_subtle"
  by (auto simp: keeps_extractable_flag_def sample_subtle_def split: key_data.splits if_splits)

text \<open>
  C9. \<open>importKeyPairFromPemPrivateKey\<close> returns a key pair exactly when these four
  steps all succeed, and then the pair holds their results: the bytes of the first PEM object
  are extracted; they are imported as PKCS8 under the registry's parameters of the
  algorithm, extractable, for the usage sign alone, which gives the private key; the private
  key is exported as a JWK; and that JWK with \<open>key_ops\<close> set to verify alone and
  without \<open>d\<close> (every other property as exported) is imported under the same
  parameters for the usage verify, which gives the public key. When a step fails there is
  no pair, only the error.
\<close>

theorem importKeyPairFromPemPrivateKey_derives_public_key:
  "(importKeyPairFromPemPrivateKey subtle extractFirstPemObject pemPrivateKey keyPairAlgorithm
      = Inr pair
    \<longleftrightarrow> (\<exists>der exported.
          extractFirstPemObject pemPrivateKey = Inr der
        \<and> importKey subtle (Pkcs8 der) (getAlgorithmProperties (or_ec keyPairAlgorithm)) True
            [''sign''] = Inr (privateKey pair)
        \<and> exportJwk subtle (privateKey pair) = Inr exported
        \<and> importKey subtle (Jwk (publicJwk exported))
            (getAlgorithmProperties (or_ec keyPairAlgorithm)) True [''verify'']
            = Inr (publicKey pair)))
   \<and> map_of (publicJwk exported)
       = ((map_of exported)(''key_ops'' \<mapsto> JwkStrings [''verify'']))(''d'' := None)"
proof (intro conjI iffI)
  assume "importKeyPairFromPemPrivateKey subtle extractFirstPemObject pemPrivateKey
            keyPairAlgorithm = Inr pair"
  then show "\<exists>der exported.
          extractFirstPemObject pemPrivateKey = Inr der
        \<and> importKey subtle (Pkcs8 der) (getAlgorithmProperties (or_ec keyPairAlgorithm)) True
            [''sign''] = Inr (privateKey pair)
        \<and> exportJwk subtle (privateKey pair) = Inr exported
        \<and> importKey subtle (Jwk (publicJwk exported))
            (getAlgorithmProperties (or_ec keyPairAlgorithm)) True [''verify'']
            = Inr (publicKey pair)"
    by (auto simp: importKeyPairFromPemPrivateKey_def derivePublicKey_def split: sum.splits)
next
  assume "\<exists>der exported.
          extractFirstPemObject pemPrivateKey = Inr der
        \<and> importKey subtle (Pkcs8 der) (getAlgorithmProperties (or_ec keyPairAlgorithm)) True
            [''sign''] = Inr (privateKey pair)
        \<and> exportJwk subtle (privateKey pair) = Inr exported
        \<and> importKey subtle (Jwk (publicJwk exported))
            (getAlgorithmProperties (or_ec keyPairAlgorithm)) True [''verify'']
            = Inr (publicKey pair)"
  then show "importKeyPairFromPemPrivateKey subtle extractFirstPemObject pemPrivateKey
            keyPairAlgorithm = Inr pair"
    by (auto simp: importKeyPairFromPemPrivateKey_def derivePublicKey_def)
next
  show "map_of (publicJwk exported)
       = ((map_of exported)(''key_ops'' \<mapsto> JwkStrings [''verify'']))(''d'' := None)"
    by (rule map_of_publicJwk)
qed

theorem importKeyPairFromPemPrivateKey_derives_public_key_witness:
  "importKeyPairFromPemPrivateKey sample_subtle (\<lambda>pem. Inr [0x30, 0x81]) ''PEM'' (Some Rsa)
     = Inr \<lparr>privateKey =
              \<lparr>key_type = ''private'', extractable = True,
               algorithm = getAlgorithmProperties Rsa, usages = [''sign''],
               material = [0x30, 0x81]\<rparr>,
            publicKey =
              \<lparr>key_type = ''public'', extractable = True,
               algorithm = getAlgorithmProperties Rsa, usages = [''verify''],
               material = []\<rparr>\<rparr>
   \<and> (\<exists>exported.
         exportJwk sample_subtle
           \<lparr>key_type = ''private'', extractable = True,
            algorithm = getAlgorithmProperties Rsa, usages = [''sign''],
            material = [0x30, 0x81]\<rparr> = Inr exported
       \<and> importKey sample_subtle (Jwk (publicJwk exported)) (getAlgorithmProperties Rsa) True
           [''verify'']
           = Inr \<lparr>key_type = ''public'', extractable = True,
                  algorithm = getAlgorithmProperties Rsa, usages = [''verify''],
                  material = []\<rparr>
       \<and> map_of (publicJwk exported) ''d'' = None
       \<and> map_of (publicJwk exported) ''key_ops'' = Some (JwkStrings [''verify'']))"
proof -
  let ?private = "\<lparr>key_type = ''private'', extractable = True,
                   algorithm = getAlgorithmProperties Rsa, usages = [''sign''],
                   material = [0x30, 0x81]\<rparr>"
  let ?public = "\<lparr>key_type = ''public'', extractable = True,
                  algorithm = getAlgorithmProperties Rsa, usages = [''verify''],
                  material = []\<rparr>"
  have run: "importKeyPairFromPemPrivateKey sample_subtle (\<lambda>pem. Inr [0x30, 0x81]) ''PEM''
               (Some Rsa) = Inr \<lparr>privateKey = ?private, publicKey = ?public\<rparr>"
    by (simp add: importKeyPairFromPemPrivateKey_def derivePublicKey_def sample_subtle_def
          publicJwk_def or_ec_def AList.delete_eq)
  note derived = importKeyPairFromPemPrivateKey_derives_public_key
    [of sample_subtle "\<lambda>pem. Inr [0x30, 0x81]" "''PEM''" "Some Rsa"
        "\<lparr>privateKey = ?private, publicKey = ?public\<rparr>"]
  from derived [THEN conjunct1, THEN iffD1, OF run] obtain exported where
    "exportJwk sample_subtle ?private = Inr exported"
    "importKey sample_subtle (Jwk (publicJwk exported)) (getAlgorithmProperties Rsa) True
       [''verify''] = Inr ?public"
    by (auto simp: or_ec_def)
  moreover from derived [of exported, THEN conjunct2]
  have "map_of (publicJwk exported) ''d'' = None"
    "map_of (publicJwk exported) ''key_ops'' = Some (JwkStrings [''verify''])"
    by simp_all
  ultimately show ?thesis using run by blast
qed

text \<open>
  C10. On a platform that gives a key the \<open>extractable\<close> attribute that was asked
  for: the key of \<open>importHmacKey\<close> is not extractable, and exporting it fails; both
  keys of a pair from \<open>generateKeyPair\<close> (either source version) and from
  \<open>importKeyPairFromPemPrivateKey\<close> are extractable.
\<close>

theorem extractable_at_the_interface:
  assumes platform: "keeps_extractable_flag subtle"
  shows "(\<forall>key. importHmacKey subtle decodeBase64Url hmacKey = Inr key \<longrightarrow>
            \<not> extractable key \<and> isl (exportJwk subtle key))
       \<and> (\<forall>pair. generateKeyPair subtle keyPairAlgorithm = Inr pair \<longrightarrow>
            extractable (privateKey pair) \<and> extractable (publicKey pair))
       \<and> (\<forall>pair. generateKeyPair_p256 subtle = Inr pair \<longrightarrow>
            extractable (privateKey pair) \<and> extractable (publicKey pair))
       \<and> (\<forall>pair. importKeyPairFromPemPrivateKey subtle extractFirstPemObject pemPrivateKey
                    keyPairAlgorithm = Inr pair \<longrightarrow>
            extractable (privateKey pair) \<and> extractable (publicKey pair))"
proof (intro conjI allI impI)
  from platform have gen: "\<And>params ex us pair. generateKey subtle params ex us = Inr pair \<Longrightarrow>
        extractable (privateKey pair) = ex \<and> extractable (publicKey pair)"
    and imp: "\<And>data params ex us key. importKey subtle data params ex us = Inr key \<Longrightarrow>
        extractable key = ex"
    and exp: "\<And>key. \<not> extractable key \<Longrightarrow> isl (exportJwk subtle key)"
    unfolding keeps_extractable_flag_def by blast+
  {
    fix key assume "importHmacKey subtle decodeBase64Url hmacKey = Inr key"
    then obtain secret where
      "importKey subtle (Raw secret) (HmacParams ''HMAC'' ''SHA-256'') False
         [''sign'', ''verify''] = Inr key"
      by (auto simp: importHmacKey_def split: sum.splits)
    from imp [OF this] show "\<not> extractable key" by simp
    then show "isl (exportJwk subtle key)" by (rule exp)
  next
    fix pair assume "generateKeyPair subtle keyPairAlgorithm = Inr pair"
    with gen show "extractable (privateKey pair)" "extractable (publicKey pair)"
      by (auto simp: generateKeyPair_def)
  next
    fix pair assume "generateKeyPair_p256 subtle = Inr pair"
    with gen show "extractable (privateKey pair)" "extractable (publicKey pair)"
      by (auto simp: generateKeyPair_p256_def)
  next
    fix pair
    assume "importKeyPairFromPemPrivateKey subtle extractFirstPemObject pemPrivateKey
              keyPairAlgorithm = Inr pair"
    then obtain der exported where
      "importKey subtle (Pkcs8 der) (getAlgorithmProperties (or_ec keyPairAlgorithm)) True
            [''sign''] = Inr (privateKey pair)"
      "importKey subtle (Jwk (publicJwk exported))
            (getAlgorithmProperties (or_ec keyPairAlgorithm)) True [''verify'']
            = Inr (publicKey pair)"
      by (auto simp: importKeyPairFromPemPrivateKey_def derivePublicKey_def split: sum.splits)
    with imp show "extractable (privateKey pair)" "extractable (publicKey pair)"
      by auto
  }
qed


theorem extractable_at_the_interface_witness:
  "keeps_extractable_flag sample_subtle
   \<and> importHmacKey sample_subtle (\<lambda>text. Inr [0x6B, 0x65, 0x79]) ''a2V5''
       = Inr \<lparr>key_type = ''secret'', extractable = False,
              algorithm = HmacParams ''HMAC'' ''SHA-256'', usages = [''sign'', ''verify''],
              material = [0x6B, 0x65, 0x79]\<rparr>
   \<and> isl (exportJwk sample_subtle
             \<lparr>key_type = ''secret'', extractable = False,
              algorithm = HmacParams ''HMAC'' ''SHA-256'', usages = [''sign'', ''verify''],
              material = [0x6B, 0x65, 0x79]\<rparr>)
   \<and> (\<exists>pair. generateKeyPair sample_subtle (Some Rsa4096) = Inr pair
         \<and> extractable (privateKey pair) \<and> extractable (publicKey pair))
   \<and> (\<exists>pair. generateKeyPair_p256 sample_subtle = Inr pair
         \<and> extractable (privateKey pair) \<and> extractable (publicKey pair))
   \<and> (\<exists>pair. importKeyPairFromPemPrivateKey sample_subtle (\<lambda>pem. Inr [0x30, 0x81]) ''PEM''
                None = Inr pair
         \<and> extractable (privateKey pair) \<and> extractable (publicKey pair))"
proof -
  let ?hmac = "\<lparr>key_type = ''secret'', extractable = False,
                algorithm = HmacParams ''HMAC'' ''SHA-256'', usages = [''sign'', ''verify''],
                material = [0x6B, 0x65, 0x79]\<rparr>"
  have platform: "keeps_extractable_flag sample_subtle"
    by (rule sample_subtle_keeps_flag)
  note flags = extractable_at_the_interface [OF platform]
  have hmac: "importHmacKey sample_subtle (\<lambda>text. Inr [0x6B, 0x65, 0x79]) ''a2V5'' = Inr ?hmac"
    by (simp add: importHmacKey_def sample_subtle_def)
  from flags [of "\<lambda>text. Inr [0x6B, 0x65, 0x79]" "''a2V5''"] hmac
  have 1: "isl (exportJwk sample_subtle ?hmac)"
    by blast
  obtain p1 where g1: "generateKeyPair sample_subtle (Some Rsa4096) = Inr p1"
    by (simp add: generateKeyPair_def sample_subtle_def)
  from flags [of _ _ "Some Rsa4096"] g1
  have 2: "extractable (privateKey p1) \<and> extractable (publicKey p1)"
    by blast
  obtain p2 where g2: "generateKeyPair_p256 sample_subtle = Inr p2"
    by (simp add: generateKeyPair_p256_def sample_subtle_def)
  from flags g2
  have 3: "extractable (privateKey p2) \<and> extractable (publicKey p2)"
    by blast
  obtain p3 where g3: "importKeyPairFromPemPrivateKey sample_subtle (\<lambda>pem. Inr [0x30, 0x81])
                         ''PEM'' None = Inr p3"
    by (simp add: importKeyPairFromPemPrivateKey_def derivePublicKey_def sample_subtle_def
          publicJwk_def or_ec_def AList.delete_eq)
  from flags [of _ _ None "\<lambda>pem. Inr [0x30, 0x81]" "''PEM''"] g3
  have 4: "extractable (privateKey p3) \<and> extractable (publicKey p3)"
    by blast
  from platform hmac 1 g1 2 g2 3 g3 4 show ?thesis by blast
qed

end
